theory Spec2Isabelle
  imports Main "HOL-Library.Word"
begin

unbundle bit_operations_syntax

section \<open>Values of the program\<close>

text \<open>
  The attestation daemon (\<^verbatim>\<open>attestation_daemon.py\<close>) and the producer service
  (\<^verbatim>\<open>service.py\<close>) are Python programs. A Python \<^verbatim>\<open>bytes\<close> object is a list of
  8-bit words; a Python \<^verbatim>\<open>str\<close> is a list of code points. File-system paths are
  Python strings.
\<close>

type_synonym byte = "8 word"
type_synonym bytes = "byte list"
type_synonym py_str = "nat list"

text \<open>The byte with a given value below 256 (\<^verbatim>\<open>bytes([n])\<close>).\<close>

definition byte_of_nat :: "nat \<Rightarrow> byte" where
  "byte_of_nat n = of_nat n"

text \<open>A string literal of the source, as a list of code points.\<close>

definition str :: "string \<Rightarrow> py_str" where
  "str s = map of_char s"

text \<open>
  The exceptions that the modelled operations raise. \<open>AttestationDaemonError\<close> is the
  only exception class the daemon declares; the others are Python's own
  (\<open>StructError\<close> is \<^verbatim>\<open>struct.error\<close>, \<open>InvalidKey\<close> is
  \<^verbatim>\<open>cryptography.exceptions.InvalidKey\<close>; \<open>OSError\<close> stands for an operating-system
  error that has no subclass of its own). A computation that may raise returns
  \<open>exn + 'a\<close>, with \<open>Inl\<close> for the exception.
\<close>

datatype exn =
    AttestationDaemonError
  | RuntimeError
  | ValueError
  | UnicodeDecodeError
  | UnicodeEncodeError
  | TypeError
  | InvalidKey
  | UnsupportedAlgorithm
  | StructError
  | OSError
  | FileNotFoundError
  | IsADirectoryError
  | NotADirectoryError
  | FileExistsError
  | PermissionError
  | KeyboardInterrupt

text \<open>
  Python's class hierarchy, as far as the \<^verbatim>\<open>except\<close> clauses of the source look at
  it: \<^verbatim>\<open>UnicodeDecodeError\<close> and \<^verbatim>\<open>UnicodeEncodeError\<close> derive from
  \<^verbatim>\<open>ValueError\<close>; every class but \<^verbatim>\<open>KeyboardInterrupt\<close> derives from
  \<^verbatim>\<open>Exception\<close>.
\<close>

definition is_ValueError :: "exn \<Rightarrow> bool" where
  "is_ValueError e = (e = ValueError \<or> e = UnicodeDecodeError \<or> e = UnicodeEncodeError)"

definition is_Exception :: "exn \<Rightarrow> bool" where
  "is_Exception e = (e \<noteq> KeyboardInterrupt)"

definition is_OSError :: "exn \<Rightarrow> bool" where
  "is_OSError e = (e = OSError \<or> e = FileNotFoundError \<or> e = IsADirectoryError
     \<or> e = NotADirectoryError \<or> e = FileExistsError \<or> e = PermissionError)"


section \<open>Text encoding\<close>

text \<open>
  \<^verbatim>\<open>str.encode('utf-8')\<close>, which \<^verbatim>\<open>UTF8String\<close> applies to the file name when the
  container is built. A surrogate code point cannot be encoded
  (\<^verbatim>\<open>UnicodeEncodeError\<close>); a Python string holds no code point above
  \<^verbatim>\<open>0x10FFFF\<close>, and the model rejects one in the same way.
\<close>

definition is_surrogate :: "nat \<Rightarrow> bool" where
  "is_surrogate c = (0xD800 \<le> c \<and> c \<le> 0xDFFF)"

definition utf8_encode_char :: "nat \<Rightarrow> exn + bytes" where
  "utf8_encode_char c =
     (if c < 0x80 then Inr [byte_of_nat c]
      else if c < 0x800 then
        Inr [byte_of_nat (0xC0 + c div 64), byte_of_nat (0x80 + c mod 64)]
      else if c < 0x10000 then
        (if is_surrogate c then Inl UnicodeEncodeError
         else Inr [byte_of_nat (0xE0 + c div 4096), byte_of_nat (0x80 + c div 64 mod 64),
                   byte_of_nat (0x80 + c mod 64)])
      else if c < 0x110000 then
        Inr [byte_of_nat (0xF0 + c div 262144), byte_of_nat (0x80 + c div 4096 mod 64),
             byte_of_nat (0x80 + c div 64 mod 64), byte_of_nat (0x80 + c mod 64)]
      else Inl UnicodeEncodeError)"

fun utf8_encode :: "py_str \<Rightarrow> exn + bytes" where
  "utf8_encode [] = Inr []"
| "utf8_encode (c # cs) =
     (case utf8_encode_char c of
        Inl e \<Rightarrow> Inl e
      | Inr b \<Rightarrow> (case utf8_encode cs of Inl e \<Rightarrow> Inl e | Inr bs \<Rightarrow> Inr (b @ bs)))"

text \<open>
  \<^verbatim>\<open>bytes.decode('utf-8')\<close> with strict error handling, which \<^verbatim>\<open>.native\<close> applies
  to the contents of a \<^verbatim>\<open>UTF8String\<close>. The lead byte gives the length of a
  sequence, every further byte must be a continuation byte, and the decoded code
  point must need that length, be no surrogate and lie below \<^verbatim>\<open>0x110000\<close>; every
  violation raises \<^verbatim>\<open>UnicodeDecodeError\<close>.
\<close>

definition is_cont :: "byte \<Rightarrow> bool" where
  "is_cont b = (0x80 \<le> unat b \<and> unat b < 0xC0)"

definition cont_bits :: "byte \<Rightarrow> nat" where
  "cont_bits b = unat b - 0x80"

definition cons_decoded :: "nat \<Rightarrow> exn + py_str \<Rightarrow> exn + py_str" where
  "cons_decoded c r = (case r of Inl e \<Rightarrow> Inl e | Inr cs \<Rightarrow> Inr (c # cs))"

text \<open>
  The first code point of a non-empty byte string and the number of bytes it takes.
\<close>

definition utf8_next :: "bytes \<Rightarrow> exn + (nat \<times> nat)" where
  "utf8_next bs =
     (let b0 = unat (bs ! 0) in
      if b0 < 0x80 then Inr (b0, 1)
      else if 0xC0 \<le> b0 \<and> b0 < 0xE0 then
        (if length bs < 2 then Inl UnicodeDecodeError
         else let c = (b0 - 0xC0) * 64 + cont_bits (bs ! 1) in
           if is_cont (bs ! 1) \<and> 0x80 \<le> c then Inr (c, 2) else Inl UnicodeDecodeError)
      else if 0xE0 \<le> b0 \<and> b0 < 0xF0 then
        (if length bs < 3 then Inl UnicodeDecodeError
         else let c = (b0 - 0xE0) * 4096 + cont_bits (bs ! 1) * 64 + cont_bits (bs ! 2) in
           if is_cont (bs ! 1) \<and> is_cont (bs ! 2) \<and> 0x800 \<le> c \<and> \<not> is_surrogate c
           then Inr (c, 3) else Inl UnicodeDecodeError)
      else if 0xF0 \<le> b0 \<and> b0 < 0xF8 then
        (if length bs < 4 then Inl UnicodeDecodeError
         else let c = (b0 - 0xF0) * 262144 + cont_bits (bs ! 1) * 4096
                      + cont_bits (bs ! 2) * 64 + cont_bits (bs ! 3) in
           if is_cont (bs ! 1) \<and> is_cont (bs ! 2) \<and> is_cont (bs ! 3)
              \<and> 0x10000 \<le> c \<and> c < 0x110000
           then Inr (c, 4) else Inl UnicodeDecodeError)
      else Inl UnicodeDecodeError)"

lemma utf8_next_pos: "utf8_next bs = Inr (c, n) \<Longrightarrow> 0 < n"
  by (auto simp: utf8_next_def Let_def split: if_splits)

function utf8_decode :: "bytes \<Rightarrow> exn + py_str" where
  "utf8_decode bs =
     (if bs = [] then Inr []
      else case utf8_next bs of
        Inl e \<Rightarrow> Inl e
      | Inr (c, n) \<Rightarrow> cons_decoded c (utf8_decode (drop n bs)))"
  by pat_completeness auto
termination
  by (relation "measure length") (auto dest: utf8_next_pos)

declare utf8_decode.simps [simp del]


section \<open>The message codec\<close>

subsection \<open>Building a container\<close>

text \<open>
  \<^verbatim>\<open>FileContainer\<close> is an \<^verbatim>\<open>asn1crypto\<close> \<^verbatim>\<open>Sequence\<close> of a \<^verbatim>\<open>UTF8String\<close>
  \<open>filename\<close> and an \<^verbatim>\<open>OctetString\<close> \<open>data\<close>. Its \<^verbatim>\<open>dump()\<close> is the DER encoding:
  each value is an identifier octet, the length of the contents and the contents.
  A length up to 127 is one octet; a longer one is the octet \<^verbatim>\<open>0x80 | k\<close> followed
  by the \<open>k\<close> octets of the length, most significant first, without leading zeros
  (\<^verbatim>\<open>int_to_bytes\<close>). \<^verbatim>\<open>bytes([n])\<close> raises \<^verbatim>\<open>ValueError\<close> for \<open>n\<close> above 255.
\<close>

fun int_to_bytes :: "nat \<Rightarrow> bytes" where
  "int_to_bytes n =
     (if n < 256 then [byte_of_nat n]
      else int_to_bytes (n div 256) @ [byte_of_nat (n mod 256)])"

declare int_to_bytes.simps [simp del]

definition int_from_bytes :: "bytes \<Rightarrow> nat" where
  "int_from_bytes bs = foldl (\<lambda>a b. a * 256 + unat b) 0 bs"

definition dump_header :: "nat \<Rightarrow> nat \<Rightarrow> exn + bytes" where
  "dump_header id_octet len =
     (if len \<le> 127 then Inr [byte_of_nat id_octet, byte_of_nat len]
      else let length_bytes = int_to_bytes len; k = 0x80 OR length length_bytes in
        if 255 < k then Inl ValueError
        else Inr (byte_of_nat id_octet # byte_of_nat k # length_bytes))"

definition dump_value :: "nat \<Rightarrow> bytes \<Rightarrow> exn + bytes" where
  "dump_value id_octet contents =
     (case dump_header id_octet (length contents) of
        Inl e \<Rightarrow> Inl e
      | Inr header \<Rightarrow> Inr (header @ contents))"

text \<open>
  The identifier octets: a universal, constructed value with tag 16 for the
  \<^verbatim>\<open>Sequence\<close>, universal primitive values with tags 12 and 4 for the
  \<^verbatim>\<open>UTF8String\<close> and the \<^verbatim>\<open>OctetString\<close>.
\<close>

definition id_Sequence :: nat where "id_Sequence = 0x30"
definition id_UTF8String :: nat where "id_UTF8String = 0x0C"
definition id_OctetString :: nat where "id_OctetString = 0x04"

text \<open>
  \<^verbatim>\<open>create_file_container(filename, data)\<close>, the same function in the daemon and in
  the producer service: it builds the container and returns \<^verbatim>\<open>container.dump()\<close>.
\<close>

definition create_file_container :: "py_str \<Rightarrow> bytes \<Rightarrow> exn + bytes" where
  "create_file_container filename data =
     (case utf8_encode filename of
        Inl e \<Rightarrow> Inl e
      | Inr name_bytes \<Rightarrow>
     (case dump_value id_UTF8String name_bytes of
        Inl e \<Rightarrow> Inl e
      | Inr field1 \<Rightarrow>
     (case dump_value id_OctetString data of
        Inl e \<Rightarrow> Inl e
      | Inr field2 \<Rightarrow> dump_value id_Sequence (field1 @ field2))))"

text \<open>
  \<^verbatim>\<open>struct.pack("!I", n)\<close>: the four bytes of an unsigned 32-bit number, most
  significant first; \<^verbatim>\<open>struct.error\<close> when the number does not fit.
  \<^verbatim>\<open>struct.unpack("!I", b)[0]\<close> reads four bytes back.
\<close>

definition struct_pack_I :: "nat \<Rightarrow> exn + bytes" where
  "struct_pack_I n =
     (if n < 2 ^ 32
      then Inr [byte_of_nat (n div 16777216), byte_of_nat (n div 65536 mod 256),
                byte_of_nat (n div 256 mod 256), byte_of_nat (n mod 256)]
      else Inl StructError)"

definition struct_unpack_I :: "bytes \<Rightarrow> exn + nat" where
  "struct_unpack_I b =
     (if length b = 4 then Inr (int_from_bytes b) else Inl StructError)"

text \<open>
  The producer's message for one file (\<^verbatim>\<open>XPFileMonitorService.main\<close>): the container,
  preceded by its length.
\<close>

definition build_message :: "py_str \<Rightarrow> bytes \<Rightarrow> exn + bytes" where
  "build_message filename file_data =
     (case create_file_container filename file_data of
        Inl e \<Rightarrow> Inl e
      | Inr container_der \<Rightarrow>
     (case struct_pack_I (length container_der) of
        Inl e \<Rightarrow> Inl e
      | Inr prefix \<Rightarrow> Inr (prefix @ container_der)))"

subsection \<open>Parsing a container\<close>

text \<open>
  A parsed value: class, method (\<open>meth\<close>, 1 for constructed), tag number, contents, and whether
  its length was indefinite.
\<close>

datatype tlv = TLV (cls: nat) (meth: nat) (tag: nat) (contents: bytes) (indefinite: bool)

text \<open>
  \<^verbatim>\<open>asn1crypto\<close> reads the definite-length encodings of BER: the length may be in
  the long form where the short form would do, and may have leading zeros. The model
  follows that code for an identifier octet with a tag number below 31 and a definite
  length. What the library does with the two other forms of a header (a tag number
  in several octets, an indefinite length) and how it joins the chunks of a string
  of indefinite length is not modelled; it is a parameter of the parser.
\<close>

record ber_forms =
  other_header :: "bytes \<Rightarrow> exn + (tlv \<times> bytes)"
  merge_chunks :: "nat \<Rightarrow> bytes \<Rightarrow> exn + bytes"

text \<open>
  \<^verbatim>\<open>_parse\<close>: the first value of a byte string and the bytes after it. Too few
  bytes for the header or for the declared length raise \<^verbatim>\<open>ValueError\<close>.
\<close>

definition asn1_parse :: "ber_forms \<Rightarrow> bytes \<Rightarrow> exn + (tlv \<times> bytes)" where
  "asn1_parse lib bs =
     (case bs of
        [] \<Rightarrow> Inl ValueError
      | first_octet # bs1 \<Rightarrow>
          let f = unat first_octet in
          if f mod 32 = 31 then other_header lib bs
          else (case bs1 of
            [] \<Rightarrow> Inl ValueError
          | length_octet # bs2 \<Rightarrow>
              let l = unat length_octet in
              if l div 128 = 0 then
                (if length bs2 < l then Inl ValueError
                 else Inr (TLV (f div 64) (f div 32 mod 2) (f mod 32) (take l bs2) False,
                           drop l bs2))
              else if l mod 128 = 0 then other_header lib bs
              else if length bs2 < l mod 128 then Inl ValueError
              else
                let n = int_from_bytes (take (l mod 128) bs2);
                    bs3 = drop (l mod 128) bs2
                in if length bs3 < n then Inl ValueError
                   else Inr (TLV (f div 64) (f div 32 mod 2) (f mod 32) (take n bs3) False,
                             drop n bs3)))"

text \<open>
  \<^verbatim>\<open>FileContainer.load(der_bytes)\<close>: the first value must be a universal constructed
  value with tag 16, else \<^verbatim>\<open>ValueError\<close>. The load is not strict: bytes after
  the value are ignored. The fields are parsed later, on first access.
\<close>

definition FileContainer_load :: "ber_forms \<Rightarrow> bytes \<Rightarrow> exn + tlv" where
  "FileContainer_load lib der_bytes =
     (case asn1_parse lib der_bytes of
        Inl e \<Rightarrow> Inl e
      | Inr (v, rest) \<Rightarrow>
          if cls v \<noteq> 0 \<or> meth v \<noteq> 1 \<or> tag v \<noteq> 16 then Inl ValueError else Inr v)"

text \<open>
  \<^verbatim>\<open>_parse_children\<close>: the headers of all values in the contents of the sequence, in
  order. The library's parser always moves forward; the test on the lengths says so
  for the forms that are a parameter here.
\<close>

function parse_children :: "ber_forms \<Rightarrow> bytes \<Rightarrow> exn + tlv list" where
  "parse_children lib bs =
     (if bs = [] then Inr []
      else case asn1_parse lib bs of
        Inl e \<Rightarrow> Inl e
      | Inr (v, rest) \<Rightarrow>
          if length rest < length bs
          then (case parse_children lib rest of
                  Inl e \<Rightarrow> Inl e
                | Inr vs \<Rightarrow> Inr (v # vs))
          else Inl ValueError)"
  by pat_completeness auto
termination
  by (relation "measure (\<lambda>(lib, bs). length bs)") auto

declare parse_children.simps [simp del]

text \<open>
  Access to a field builds the child from its header (\<^verbatim>\<open>_build\<close>): class, method and
  tag must be those of the field's type, else \<^verbatim>\<open>ValueError\<close>; a string type may be
  constructed when its length is indefinite. \<^verbatim>\<open>.native\<close> of a string joins the
  chunks of such a value and is the contents otherwise.
\<close>

definition build_string :: "nat \<Rightarrow> tlv \<Rightarrow> exn + tlv" where
  "build_string spec_tag v =
     (if cls v \<noteq> 0 then Inl ValueError
      else if meth v \<noteq> 0 \<and> \<not> (meth v = 1 \<and> indefinite v) then Inl ValueError
      else if tag v \<noteq> spec_tag then Inl ValueError
      else Inr v)"

definition string_bytes :: "ber_forms \<Rightarrow> nat \<Rightarrow> tlv \<Rightarrow> exn + bytes" where
  "string_bytes lib spec_tag v =
     (if meth v = 1 \<and> indefinite v then merge_chunks lib spec_tag (contents v)
      else Inr (contents v))"

text \<open>
  \<^verbatim>\<open>parse_file_container(der_bytes)\<close>: load the container, then read
  \<^verbatim>\<open>container['filename'].native\<close> and \<^verbatim>\<open>container['data'].native\<close> in this
  order. The first access parses the children and raises \<^verbatim>\<open>ValueError\<close> when a
  field is missing; values after the second field are kept and never looked at.
\<close>

definition parse_file_container :: "ber_forms \<Rightarrow> bytes \<Rightarrow> exn + (py_str \<times> bytes)" where
  "parse_file_container lib der_bytes =
     (case FileContainer_load lib der_bytes of
        Inl e \<Rightarrow> Inl e
      | Inr container \<Rightarrow>
     (case parse_children lib (contents container) of
        Inl e \<Rightarrow> Inl e
      | Inr children \<Rightarrow>
          if length children < 2 then Inl ValueError
          else
     (case build_string 12 (children ! 0) of
        Inl e \<Rightarrow> Inl e
      | Inr name_value \<Rightarrow>
     (case string_bytes lib 12 name_value of
        Inl e \<Rightarrow> Inl e
      | Inr name_bytes \<Rightarrow>
     (case utf8_decode name_bytes of
        Inl e \<Rightarrow> Inl e
      | Inr filename \<Rightarrow>
     (case build_string 4 (children ! 1) of
        Inl e \<Rightarrow> Inl e
      | Inr data_value \<Rightarrow>
     (case string_bytes lib 4 data_value of
        Inl e \<Rightarrow> Inl e
      | Inr data \<Rightarrow> Inr (filename, data))))))))"

text \<open>
  A library that rejects the forms of a header that are not modelled: the parser of
  the definite-length encodings alone.
\<close>

definition definite_only :: ber_forms where
  "definite_only =
     \<lparr>other_header = (\<lambda>bs. Inl ValueError), merge_chunks = (\<lambda>t bs. Inl ValueError)\<rparr>"

section \<open>Properties of the text encoding\<close>

lemma unat_byte_of_nat: "n < 256 \<Longrightarrow> unat (byte_of_nat n) = n"
  by (simp add: byte_of_nat_def unat_of_nat)

lemma split3: "(c::nat) div 4096 * 4096 + c div 64 mod 64 * 64 + c mod 64 = c"
proof -
  have "c div 64 = (c div 64 div 64) * 64 + c div 64 mod 64" by simp
  moreover have "c div 64 div 64 = c div 4096" by (simp add: div_mult2_eq[symmetric])
  moreover have "c = c div 64 * 64 + c mod 64" by simp
  ultimately show ?thesis by linarith
qed

lemma split4:
  "(c::nat) div 262144 * 262144 + c div 4096 mod 64 * 4096 + c div 64 mod 64 * 64 + c mod 64 = c"
proof -
  have "c div 4096 = (c div 4096 div 64) * 64 + c div 4096 mod 64" by simp
  moreover have "c div 4096 div 64 = c div 262144" by (simp add: div_mult2_eq[symmetric])
  moreover have "c div 4096 * 4096 + c div 64 mod 64 * 64 + c mod 64 = c" by (rule split3)
  ultimately show ?thesis by linarith
qed

lemma cont_byte:
  "unat (byte_of_nat (0x80 + x mod 64)) = 0x80 + x mod 64"
  by (intro unat_byte_of_nat) simp

lemma is_cont_byte: "is_cont (byte_of_nat (0x80 + x mod 64))"
  by (simp add: is_cont_def cont_byte)

lemma cont_bits_byte: "cont_bits (byte_of_nat (0x80 + x mod 64)) = x mod 64"
  by (simp add: cont_bits_def cont_byte)

lemma utf8_next_1: "c < 0x80 \<Longrightarrow> utf8_next (byte_of_nat c # rest) = Inr (c, 1)"
  by (simp add: utf8_next_def unat_byte_of_nat)

lemma utf8_next_2: 
  assumes "\<not> c < 0x80" "c < 0x800"
  shows "utf8_next (byte_of_nat (0xC0 + c div 64) # byte_of_nat (0x80 + c mod 64) # rest) = Inr (c, 2)"
proof -
  have a: "unat (byte_of_nat (0xC0 + c div 64)) = 0xC0 + c div 64"
    using assms by (intro unat_byte_of_nat) simp
  have c: "c div 64 < 32" "2 \<le> c div 64" using assms by simp_all
  show ?thesis using c assms
    by (simp add: utf8_next_def a is_cont_byte cont_bits_byte)
qed

lemma utf8_next_3: 
  assumes "\<not> c < 0x800" "c < 0x10000" "\<not> is_surrogate c"
  shows "utf8_next (byte_of_nat (0xE0 + c div 4096) # byte_of_nat (0x80 + c div 64 mod 64) # byte_of_nat (0x80 + c mod 64) # rest) = Inr (c, 3)"
proof -
  have a: "unat (byte_of_nat (0xE0 + c div 4096)) = 0xE0 + c div 4096"
    using assms by (intro unat_byte_of_nat) simp
  have c: "c div 4096 < 16" using assms by simp
  show ?thesis using c assms
    by (simp add: utf8_next_def a is_cont_byte cont_bits_byte split3)
qed


lemma utf8_next_4: 
  assumes "\<not> c < 0x10000" "c < 0x110000"
  shows "utf8_next (byte_of_nat (0xF0 + c div 262144) # byte_of_nat (0x80 + c div 4096 mod 64) # byte_of_nat (0x80 + c div 64 mod 64) # byte_of_nat (0x80 + c mod 64) # rest) = Inr (c, 4)"
proof -
  have a: "unat (byte_of_nat (0xF0 + c div 262144)) = 0xF0 + c div 262144"
    using assms by (intro unat_byte_of_nat) simp
  have c: "c div 262144 < 8" using assms by simp
  show ?thesis using c assms
    by (simp add: utf8_next_def a is_cont_byte cont_bits_byte split4)
qed

lemma utf8_next_encode_char:
  "utf8_encode_char c = Inr b \<Longrightarrow> utf8_next (b @ rest) = Inr (c, length b)"
  unfolding utf8_encode_char_def
  by (auto simp: utf8_next_1 utf8_next_2 utf8_next_3 utf8_next_4 split: if_splits)

lemma utf8_encode_char_nonempty: "utf8_encode_char c = Inr b \<Longrightarrow> b \<noteq> []"
  by (auto simp: utf8_encode_char_def split: if_splits)

lemma utf8_roundtrip: "utf8_encode s = Inr b \<Longrightarrow> utf8_decode b = Inr s"
proof (induction s arbitrary: b)
  case Nil
  then show ?case by (simp add: utf8_decode.simps)
next
  case (Cons c cs)
  then obtain b1 b2 where e: "utf8_encode_char c = Inr b1" "utf8_encode cs = Inr b2" "b = b1 @ b2"
    by (auto split: sum.splits)
  from Cons.IH[OF e(2)] have d: "utf8_decode b2 = Inr cs" .
  show ?case
    using e d utf8_next_encode_char[OF e(1), of b2] utf8_encode_char_nonempty[OF e(1)]
    by (subst utf8_decode.simps) (simp add: cons_decoded_def)
qed

section \<open>Properties of the length encoding\<close>

lemma int_from_bytes_snoc: "int_from_bytes (bs @ [b]) = int_from_bytes bs * 256 + unat b"
  by (simp add: int_from_bytes_def)

lemma int_from_bytes_int_to_bytes: "int_from_bytes (int_to_bytes n) = n"
proof (induction n rule: int_to_bytes.induct)
  case (1 n)
  show ?case
  proof (cases "n < 256")
    case True
    then show ?thesis
      by (subst int_to_bytes.simps) (simp add: int_from_bytes_def unat_byte_of_nat)
  next
    case False
    with 1 have "int_from_bytes (int_to_bytes (n div 256)) = n div 256" by simp
    with False show ?thesis
      by (subst int_to_bytes.simps) (simp add: int_from_bytes_snoc unat_byte_of_nat)
  qed
qed

lemma length_int_to_bytes_pos: "0 < length (int_to_bytes n)"
  by (subst int_to_bytes.simps) simp

lemma length_int_to_bytes_le: "n < 256 ^ k \<Longrightarrow> 0 < k \<Longrightarrow> length (int_to_bytes n) \<le> k"
proof (induction n arbitrary: k rule: int_to_bytes.induct)
  case (1 n)
  show ?case
  proof (cases "n < 256")
    case True
    with 1 show ?thesis by (subst int_to_bytes.simps) simp
  next
    case False
    obtain j where k: "k = Suc j" using 1(3) by (cases k) auto
    from False 1(2) k have "0 < j" by (cases j) auto
    moreover from 1(2) k have "n div 256 < 256 ^ j"
      by (simp add: less_mult_imp_div_less mult.commute)
    ultimately have "length (int_to_bytes (n div 256)) \<le> j" using 1(1) False by simp
    with False k show ?thesis by (subst int_to_bytes.simps) simp
  qed
qed

lemma or_128: "k < 128 \<Longrightarrow> (128::nat) OR k = 128 + k"
proof -
  assume k: "k < 128"
  have e: "(128::nat) = 2 ^ 7" by simp
  have "(2::nat) ^ 7 AND k = 0"
  proof (rule bit_eqI)
    fix n
    have b: "bit ((2::nat) ^ 7) n = (n = 7)" by (subst bit_exp_iff) auto
    from k have "k div 2 ^ 7 = 0" by simp
    then have "\<not> bit k 7" by (simp only: bit_iff_odd) simp
    then show "bit (2 ^ 7 AND k) n = bit (0::nat) n"
      unfolding bit_and_iff b by auto
  qed
  then have "(2::nat) ^ 7 + k = 2 ^ 7 OR k" by (rule disjunctive_add_eq_or)
  then show ?thesis unfolding e by simp
qed

section \<open>Properties of the parser on dumped values\<close>

lemma asn1_parse_short:
  assumes "i < 256" "i mod 32 \<noteq> 31" "length c \<le> 127"
  shows "asn1_parse lib (byte_of_nat i # byte_of_nat (length c) # c @ rest)
         = Inr (TLV (i div 64) (i div 32 mod 2) (i mod 32) c False, rest)"
  using assms by (simp add: asn1_parse_def unat_byte_of_nat Let_def)

lemma asn1_parse_long:
  assumes "i < 256" "i mod 32 \<noteq> 31" "length lb < 128" "0 < length lb"
    "int_from_bytes lb = length c"
  shows "asn1_parse lib (byte_of_nat i # byte_of_nat (128 + length lb) # lb @ c @ rest)
         = Inr (TLV (i div 64) (i div 32 mod 2) (i mod 32) c False, rest)"
proof -
  have u: "unat (byte_of_nat (128 + length lb)) = 128 + length lb"
    using assms by (intro unat_byte_of_nat) simp
  have d: "(128 + length lb) div 128 = 1" "(128 + length lb) mod 128 = length lb"
    using assms by simp_all
  show ?thesis using assms
    by (simp add: asn1_parse_def unat_byte_of_nat Let_def u d)
qed

lemma asn1_parse_dump_header:
  assumes h: "dump_header i (length c) = Inr h" and i: "i < 256" "i mod 32 \<noteq> 31"
    and n: "length c < 256 ^ 127"
  shows "asn1_parse lib (h @ c @ rest)
         = Inr (TLV (i div 64) (i div 32 mod 2) (i mod 32) c False, rest)"
proof (cases "length c \<le> 127")
  case True
  with h have "h = [byte_of_nat i, byte_of_nat (length c)]" by (simp add: dump_header_def)
  with True i show ?thesis by (simp add: asn1_parse_short)
next
  case False
  let ?lb = "int_to_bytes (length c)"
  have k: "length ?lb \<le> 127" using n by (intro length_int_to_bytes_le) simp_all
  then have o: "128 OR length ?lb = 128 + length ?lb" by (intro or_128) simp
  from h False k have "h = byte_of_nat i # byte_of_nat (128 + length ?lb) # ?lb"
    by (simp add: dump_header_def Let_def o split: if_splits)
  moreover from k have "length ?lb < 128" by simp
  then have "asn1_parse lib (byte_of_nat i # byte_of_nat (128 + length ?lb) # ?lb @ c @ rest)
         = Inr (TLV (i div 64) (i div 32 mod 2) (i mod 32) c False, rest)"
    using i by (intro asn1_parse_long length_int_to_bytes_pos int_from_bytes_int_to_bytes)
  ultimately show ?thesis by simp
qed

lemma dump_header_ok:
  assumes "n < 256 ^ 127"
  shows "\<exists>h. dump_header i n = Inr h \<and> 2 \<le> length h \<and> length h \<le> 129"
proof (cases "n \<le> 127")
  case True
  then show ?thesis by (simp add: dump_header_def)
next
  case False
  have k: "length (int_to_bytes n) \<le> 127" using assms by (intro length_int_to_bytes_le) simp_all
  then have o: "128 OR length (int_to_bytes n) = 128 + length (int_to_bytes n)" by (intro or_128) simp
  with False k show ?thesis by (simp add: dump_header_def Let_def)
qed

section \<open>Round trip of the codec\<close>

text \<open>
  Text that a Python string can hold and UTF-8 can encode: code points below
  \<^verbatim>\<open>0x110000\<close> that are no surrogates.
\<close>

definition valid_text :: "py_str \<Rightarrow> bool" where
  "valid_text s = list_all (\<lambda>c. c < 0x110000 \<and> \<not> is_surrogate c) s"

text \<open>
  No Python object is longer than \<^verbatim>\<open>sys.maxsize\<close>, which is \<open>2\<^sup>6\<^sup>3 - 1\<close> on the
  64-bit platforms the daemon runs on.
\<close>

definition sys_maxsize :: nat where
  "sys_maxsize = 2 ^ 63 - 1"

lemma utf8_encode_char_ok:
  "c < 0x110000 \<Longrightarrow> \<not> is_surrogate c \<Longrightarrow> \<exists>b. utf8_encode_char c = Inr b \<and> length b \<le> 4"
  by (simp add: utf8_encode_char_def)

lemma utf8_encode_ok:
  "valid_text s \<Longrightarrow> \<exists>b. utf8_encode s = Inr b \<and> length b \<le> 4 * length s"
proof (induction s)
  case Nil
  then show ?case by simp
next
  case (Cons c cs)
  then obtain b where b: "utf8_encode cs = Inr b" "length b \<le> 4 * length cs"
    by (auto simp: valid_text_def)
  from Cons.prems obtain b1 where b1: "utf8_encode_char c = Inr b1" "length b1 \<le> 4"
    using utf8_encode_char_ok [of c] by (auto simp: valid_text_def)
  from b b1 show ?case by simp
qed

lemma dump_value_ok:
  assumes "length c < 256 ^ 127"
  shows "\<exists>h. dump_value i c = Inr (h @ c) \<and> dump_header i (length c) = Inr h
            \<and> 2 \<le> length h \<and> length h \<le> 129"
  using dump_header_ok [OF assms, of i] by (auto simp: dump_value_def)

lemma parse_children_two:
  assumes p1: "asn1_parse lib (f1 @ f2) = Inr (v1, f2)" and p2: "asn1_parse lib f2 = Inr (v2, [])"
    and n: "f1 \<noteq> []" "f2 \<noteq> []"
  shows "parse_children lib (f1 @ f2) = Inr [v1, v2]"
proof -
  have "parse_children lib [] = Inr []" by (simp add: parse_children.simps)
  with p2 n have "parse_children lib f2 = Inr [v2]"
    by (subst parse_children.simps) simp
  with p1 n show ?thesis
    by (subst parse_children.simps) simp
qed

lemma size_bound: "n \<le> 5 * sys_maxsize + 258 \<Longrightarrow> n < (256::nat) ^ 127"
  by (simp add: sys_maxsize_def)

text \<open>
  Claim C2. For every file name that is valid text and every byte sequence \<open>data\<close>,
  the empty one included, \<open>create_file_container\<close> returns a record, and
  \<open>parse_file_container\<close> applied to that record returns the pair
  \<open>(filename, data)\<close> unchanged. The lengths are those of Python objects, at most
  \<^verbatim>\<open>sys.maxsize\<close>. The result does not depend on how the library treats the header
  forms that DER never produces.
\<close>

theorem file_container_roundtrip:
  assumes t: "valid_text filename" and l1: "length filename \<le> sys_maxsize"
    and l2: "length data \<le> sys_maxsize"
  shows "\<exists>r. create_file_container filename data = Inr r
             \<and> parse_file_container lib r = Inr (filename, data)"
proof -
  from t obtain nb where nb: "utf8_encode filename = Inr nb" "length nb \<le> 4 * length filename"
    using utf8_encode_ok by blast
  have s1: "length nb < 256 ^ 127" using nb(2) l1 by (intro size_bound) simp
  have s2: "length data < 256 ^ 127" using l2 by (intro size_bound) simp
  from dump_value_ok [OF s1, of id_UTF8String] obtain h1 where
    h1: "dump_value id_UTF8String nb = Inr (h1 @ nb)" "dump_header id_UTF8String (length nb) = Inr h1"
        "2 \<le> length h1" "length h1 \<le> 129" by blast
  from dump_value_ok [OF s2, of id_OctetString] obtain h2 where
    h2: "dump_value id_OctetString data = Inr (h2 @ data)" "dump_header id_OctetString (length data) = Inr h2"
        "2 \<le> length h2" "length h2 \<le> 129" by blast
  let ?c = "(h1 @ nb) @ (h2 @ data)"
  have s3: "length ?c < 256 ^ 127" using nb(2) l1 l2 h1(4) h2(4) by (intro size_bound) simp
  from dump_value_ok [OF s3, of id_Sequence] obtain h0 where
    h0: "dump_value id_Sequence ?c = Inr (h0 @ ?c)" "dump_header id_Sequence (length ?c) = Inr h0"
    by blast
  have r: "create_file_container filename data = Inr (h0 @ ?c)"
    using nb(1) h1(1) h2(1) h0(1) by (simp add: create_file_container_def)
  have "asn1_parse lib (h0 @ ?c @ []) = Inr (TLV 0 1 16 ?c False, [])"
    using asn1_parse_dump_header [OF h0(2) _ _ s3, of lib "[]"] by (simp add: id_Sequence_def)
  then have ld: "FileContainer_load lib (h0 @ ?c) = Inr (TLV 0 1 16 ?c False)"
    by (simp add: FileContainer_load_def)
  have p1: "asn1_parse lib ((h1 @ nb) @ (h2 @ data)) = Inr (TLV 0 0 12 nb False, h2 @ data)"
    using asn1_parse_dump_header [OF h1(2) _ _ s1, of lib "h2 @ data"] by (simp add: id_UTF8String_def)
  have p2: "asn1_parse lib (h2 @ data) = Inr (TLV 0 0 4 data False, [])"
    using asn1_parse_dump_header [OF h2(2) _ _ s2, of lib "[]"] by (simp add: id_OctetString_def)
  have ne: "h1 @ nb \<noteq> []" "h2 @ data \<noteq> []" using h1(3) h2(3) by auto
  have ch: "parse_children lib ?c = Inr [TLV 0 0 12 nb False, TLV 0 0 4 data False]"
    by (rule parse_children_two [OF p1 p2 ne])
  have "parse_file_container lib (h0 @ ?c) = Inr (filename, data)"
    unfolding parse_file_container_def using ld ch
    by (simp add: build_string_def string_bytes_def utf8_roundtrip [OF nb(1)])
  with r show ?thesis by blast
qed

theorem file_container_roundtrip_witness:
  "valid_text (str ''hello.txt'') \<and> length (str ''hello.txt'') \<le> sys_maxsize
   \<and> length ([] :: bytes) \<le> sys_maxsize
   \<and> create_file_container (str ''hello.txt'') [] =
         Inr [48, 13, 12, 9, 104, 101, 108, 108, 111, 46, 116, 120, 116, 4, 0]
   \<and> (\<exists>r. create_file_container (str ''hello.txt'') [] = Inr r
            \<and> parse_file_container definite_only r = Inr (str ''hello.txt'', []))"
proof -
  have t: "valid_text (str ''hello.txt'')"
    by (simp add: valid_text_def str_def is_surrogate_def)
  have l1: "length (str ''hello.txt'') \<le> sys_maxsize"
    by (simp add: sys_maxsize_def str_def)
  have l2: "length ([] :: bytes) \<le> sys_maxsize"
    by simp
  have c: "create_file_container (str ''hello.txt'') [] =
         Inr [48, 13, 12, 9, 104, 101, 108, 108, 111, 46, 116, 120, 116, 4, 0]"
    by (simp add: create_file_container_def str_def utf8_encode_char_def dump_value_def
        dump_header_def byte_of_nat_def id_UTF8String_def id_OctetString_def id_Sequence_def)
  from file_container_roundtrip [OF t l1 l2, of definite_only] t l1 l2 c
  show ?thesis by blast
qed

section \<open>Records that are not well formed\<close>

text \<open>
  A record laid out like the container, a DER sequence of two DER values, but with
  any identifier octets and contents for the two fields. \<open>create_file_container\<close>
  is the case of a \<^verbatim>\<open>UTF8String\<close> with encoded text and an \<^verbatim>\<open>OctetString\<close>.
\<close>

definition dump_two_fields :: "nat \<Rightarrow> bytes \<Rightarrow> nat \<Rightarrow> bytes \<Rightarrow> exn + bytes" where
  "dump_two_fields id1 contents1 id2 contents2 =
     (case dump_value id1 contents1 of
        Inl e \<Rightarrow> Inl e
      | Inr field1 \<Rightarrow>
     (case dump_value id2 contents2 of
        Inl e \<Rightarrow> Inl e
      | Inr field2 \<Rightarrow> dump_value id_Sequence (field1 @ field2)))"

lemma dump_header_Inr:
  "dump_header i n = Inr h \<Longrightarrow> 2 \<le> length h"
  by (auto simp: dump_header_def Let_def split: if_splits)

lemma dump_value_Inr:
  "dump_value i c = Inr v \<Longrightarrow> \<exists>h. v = h @ c \<and> dump_header i (length c) = Inr h \<and> 2 \<le> length h"
  by (auto simp: dump_value_def dump_header_Inr split: sum.splits)

lemma asn1_parse_truncated:
  assumes h: "dump_header i (length c) = Inr h" and i: "i < 256" "i mod 32 \<noteq> 31"
    and s: "length c < 256 ^ 127" and n: "n < length (h @ c)"
  shows "asn1_parse lib (take n (h @ c)) = Inl ValueError"
proof -
  consider "n = 0" | "n = 1" | m where "n = Suc (Suc m)"
    by (metis One_nat_def not0_implies_Suc)
  then show ?thesis
  proof cases
    case 1
    then show ?thesis by (simp add: asn1_parse_def)
  next
    case 2
    from h obtain a r where "h = a # r" "a = byte_of_nat i"
      by (auto simp: dump_header_def Let_def split: if_splits)
    with 2 i show ?thesis by (simp add: asn1_parse_def unat_byte_of_nat)
  next
    case 3
    show ?thesis
    proof (cases "length c \<le> 127")
      case True
      with h have hh: "h = [byte_of_nat i, byte_of_nat (length c)]" by (simp add: dump_header_def)
      with n 3 have "m < length c" by simp
      with hh 3 i True show ?thesis
        by (simp add: asn1_parse_def unat_byte_of_nat Let_def)
    next
      case False
      let ?lb = "int_to_bytes (length c)"
      have k: "length ?lb \<le> 127" using s by (intro length_int_to_bytes_le) simp_all
      then have o: "128 OR length ?lb = 128 + length ?lb" by (intro or_128) simp
      from h False k have hh: "h = byte_of_nat i # byte_of_nat (128 + length ?lb) # ?lb"
        by (simp add: dump_header_def Let_def o split: if_splits)
      have u: "unat (byte_of_nat (128 + length ?lb)) = 128 + length ?lb"
        using k by (intro unat_byte_of_nat) simp
      have d: "(128 + length ?lb) div 128 = 1" "(128 + length ?lb) mod 128 = length ?lb"
        "length ?lb mod 128 = length ?lb" "length ?lb div 128 = 0" "?lb \<noteq> []"
        using k length_int_to_bytes_pos [of "length c"] by simp_all
      from n 3 hh have m: "m < length ?lb + length c" by simp
      show ?thesis
      proof (cases "m < length ?lb")
        case True
        with hh 3 i show ?thesis
          by (simp add: asn1_parse_def unat_byte_of_nat Let_def u d)
      next
        case False
        with m have "m - length ?lb < length c" by simp
        with False hh 3 i show ?thesis
          by (simp add: asn1_parse_def unat_byte_of_nat Let_def u d int_from_bytes_int_to_bytes)
      qed
    qed
  qed
qed


lemma maxsize_bound: "n \<le> sys_maxsize \<Longrightarrow> n < (256::nat) ^ 127"
  by (simp add: sys_maxsize_def)

lemma create_file_container_two_fields:
  "create_file_container filename data = Inr r \<longleftrightarrow>
   (\<exists>nb. utf8_encode filename = Inr nb
      \<and> dump_two_fields id_UTF8String nb id_OctetString data = Inr r)"
  by (auto simp: create_file_container_def dump_two_fields_def split: sum.splits)

lemma octet_parts: "(t::nat) = t div 64 * 64 + t div 32 mod 2 * 32 + t mod 32"
proof -
  have "t div 32 = t div 32 div 2 * 2 + t div 32 mod 2" by simp
  moreover have "t div 32 div 2 = t div 64" by (simp add: div_mult2_eq [symmetric])
  moreover have "t = t div 32 * 32 + t mod 32" by simp
  ultimately show ?thesis by linarith
qed

lemma build_string_parsed:
  assumes "t < 256" "s < 31"
  shows "build_string s (TLV (t div 64) (t div 32 mod 2) (t mod 32) c False)
         = (if t = s then Inr (TLV 0 0 s c False) else Inl ValueError)"
proof (cases "t = s")
  case True
  with assms show ?thesis by (simp add: build_string_def)
next
  case False
  have "\<not> (t div 64 = 0 \<and> t div 32 mod 2 = 0 \<and> t mod 32 = s)"
  proof
    assume "t div 64 = 0 \<and> t div 32 mod 2 = 0 \<and> t mod 32 = s"
    with octet_parts [of t] have "t = s" by simp
    with False show False by simp
  qed
  with False show ?thesis by (auto simp: build_string_def)
qed

lemma utf8_decode_error: "utf8_decode bs = Inl e \<Longrightarrow> e = UnicodeDecodeError"
proof (induction bs rule: utf8_decode.induct)
  case (1 bs)
  show ?case
  proof (cases "bs = []")
    case True
    with 1(2) show ?thesis by (simp add: utf8_decode.simps)
  next
    case False
    show ?thesis
    proof (cases "utf8_next bs")
      case (Inl e')
      then have "e' = UnicodeDecodeError"
        by (auto simp: utf8_next_def Let_def split: if_splits)
      with Inl False 1(2) show ?thesis by (simp add: utf8_decode.simps)
    next
      case (Inr p)
      obtain c n where p: "p = (c, n)" by (cases p)
      from 1(2) False Inr p have "utf8_decode (drop n bs) = Inl e"
        by (subst (asm) utf8_decode.simps) (auto simp: cons_decoded_def split: sum.splits)
      with 1(1) [OF False Inr [unfolded p] refl] show ?thesis by simp
    qed
  qed
qed

text \<open>The parse of a record with two DER fields, whatever their identifier octets.\<close>

lemma parse_two_fields:
  assumes r: "dump_two_fields t1 c1 t2 c2 = Inr r" and s: "length r \<le> sys_maxsize"
    and t: "t1 < 256" "t1 mod 32 \<noteq> 31" "t2 < 256" "t2 mod 32 \<noteq> 31"
  shows "parse_file_container lib r =
     (if t1 \<noteq> id_UTF8String then Inl ValueError
      else case utf8_decode c1 of
        Inl e \<Rightarrow> Inl e
      | Inr filename \<Rightarrow>
          if t2 \<noteq> id_OctetString then Inl ValueError else Inr (filename, c2))"
proof -
  from r obtain f1 f2 where f: "dump_value t1 c1 = Inr f1" "dump_value t2 c2 = Inr f2"
      "dump_value id_Sequence (f1 @ f2) = Inr r"
    by (auto simp: dump_two_fields_def split: sum.splits)
  from dump_value_Inr [OF f(1)] obtain h1 where
    h1: "f1 = h1 @ c1" "dump_header t1 (length c1) = Inr h1" "2 \<le> length h1" by blast
  from dump_value_Inr [OF f(2)] obtain h2 where
    h2: "f2 = h2 @ c2" "dump_header t2 (length c2) = Inr h2" "2 \<le> length h2" by blast
  from dump_value_Inr [OF f(3)] obtain h0 where
    h0: "r = h0 @ f1 @ f2" "dump_header id_Sequence (length (f1 @ f2)) = Inr h0" by auto
  have s1: "length c1 < 256 ^ 127" using s h0(1) h1(1) by (intro maxsize_bound) simp
  have s2: "length c2 < 256 ^ 127" using s h0(1) h2(1) by (intro maxsize_bound) simp
  have s3: "length (f1 @ f2) < 256 ^ 127" using s h0(1) by (intro maxsize_bound) simp
  have "asn1_parse lib (h0 @ (f1 @ f2) @ []) = Inr (TLV 0 1 16 (f1 @ f2) False, [])"
    using asn1_parse_dump_header [OF h0(2) _ _ s3, of lib "[]"] by (simp add: id_Sequence_def)
  then have ld: "FileContainer_load lib r = Inr (TLV 0 1 16 (f1 @ f2) False)"
    using h0(1) by (simp add: FileContainer_load_def)
  have p1: "asn1_parse lib (f1 @ f2)
            = Inr (TLV (t1 div 64) (t1 div 32 mod 2) (t1 mod 32) c1 False, f2)"
    using asn1_parse_dump_header [OF h1(2) t(1,2) s1, of lib f2] h1(1) by simp
  have p2: "asn1_parse lib f2
            = Inr (TLV (t2 div 64) (t2 div 32 mod 2) (t2 mod 32) c2 False, [])"
    using asn1_parse_dump_header [OF h2(2) t(3,4) s2, of lib "[]"] h2(1) by simp
  have ne: "f1 \<noteq> []" "f2 \<noteq> []" using h1 h2 by auto
  have ch: "parse_children lib (f1 @ f2)
            = Inr [TLV (t1 div 64) (t1 div 32 mod 2) (t1 mod 32) c1 False,
                   TLV (t2 div 64) (t2 div 32 mod 2) (t2 mod 32) c2 False]"
    by (rule parse_children_two [OF p1 p2 ne])
  show ?thesis
    unfolding parse_file_container_def using ld ch t
    by (simp add: build_string_parsed string_bytes_def id_UTF8String_def id_OctetString_def
        split: sum.splits)
qed

lemma parse_single_value:
  assumes r: "dump_value t c = Inr r" and s: "length r \<le> sys_maxsize"
    and t: "t < 256" "t mod 32 \<noteq> 31" "t \<noteq> id_Sequence"
  shows "parse_file_container lib r = Inl ValueError"
proof -
  from dump_value_Inr [OF r] obtain h where
    h: "r = h @ c" "dump_header t (length c) = Inr h" by blast
  have s1: "length c < 256 ^ 127" using s h(1) by (intro maxsize_bound) simp
  have p: "asn1_parse lib r = Inr (TLV (t div 64) (t div 32 mod 2) (t mod 32) c False, [])"
    using asn1_parse_dump_header [OF h(2) t(1,2) s1, of lib "[]"] h(1) by simp
  have "\<not> (t div 64 = 0 \<and> t div 32 mod 2 = 1 \<and> t mod 32 = 16)"
  proof
    assume "t div 64 = 0 \<and> t div 32 mod 2 = 1 \<and> t mod 32 = 16"
    with octet_parts [of t] have "t = 48" by simp
    with t(3) show False by (simp add: id_Sequence_def)
  qed
  with p show ?thesis
    by (auto simp: parse_file_container_def FileContainer_load_def)
qed

lemma parse_few_fields:
  assumes r: "dump_value id_Sequence f = Inr r" and s: "length r \<le> sys_maxsize"
    and f: "f = [] \<or> dump_value t c = Inr f \<and> t < 256 \<and> t mod 32 \<noteq> 31"
  shows "parse_file_container lib r = Inl ValueError"
proof -
  from dump_value_Inr [OF r] obtain h where
    h: "r = h @ f" "dump_header id_Sequence (length f) = Inr h" by blast
  have s1: "length f < 256 ^ 127" using s h(1) by (intro maxsize_bound) simp
  have "asn1_parse lib (h @ f @ []) = Inr (TLV 0 1 16 f False, [])"
    using asn1_parse_dump_header [OF h(2) _ _ s1, of lib "[]"] by (simp add: id_Sequence_def)
  then have ld: "FileContainer_load lib r = Inr (TLV 0 1 16 f False)"
    using h(1) by (simp add: FileContainer_load_def)
  have "\<exists>ch. parse_children lib f = Inr ch \<and> length ch < 2"
  proof (cases "f = []")
    case True
    then show ?thesis by (simp add: parse_children.simps)
  next
    case False
    with f have d: "dump_value t c = Inr f" and t: "t < 256" "t mod 32 \<noteq> 31" by auto
    from dump_value_Inr [OF d] obtain h' where
      h': "f = h' @ c" "dump_header t (length c) = Inr h'" by blast
    have s2: "length c < 256 ^ 127" using s h(1) h'(1) by (intro maxsize_bound) simp
    have p: "asn1_parse lib f = Inr (TLV (t div 64) (t div 32 mod 2) (t mod 32) c False, [])"
      using asn1_parse_dump_header [OF h'(2) t s2, of lib "[]"] h'(1) by simp
    have "parse_children lib [] = Inr []" by (simp add: parse_children.simps)
    with p False show ?thesis by (subst parse_children.simps) simp
  qed
  with ld show ?thesis by (auto simp: parse_file_container_def)
qed

lemma parse_truncated:
  assumes r: "create_file_container filename data = Inr r" and s: "length r \<le> sys_maxsize"
    and n: "n < length r"
  shows "parse_file_container lib (take n r) = Inl ValueError"
proof -
  from r obtain c where c: "dump_value id_Sequence c = Inr r"
    by (auto simp: create_file_container_def split: sum.splits)
  from dump_value_Inr [OF c] obtain h where
    h: "r = h @ c" "dump_header id_Sequence (length c) = Inr h" by blast
  have s1: "length c < 256 ^ 127" using s h(1) by (intro maxsize_bound) simp
  have "asn1_parse lib (take n (h @ c)) = Inl ValueError"
    using n h(1) by (intro asn1_parse_truncated [OF h(2) _ _ s1]) (simp_all add: id_Sequence_def)
  then show ?thesis using h(1)
    by (simp add: parse_file_container_def FileContainer_load_def)
qed

lemma parse_file_container_Inr:
  assumes "parse_file_container lib bs = Inr (filename, data)"
  shows "\<exists>v rest ch nb. asn1_parse lib bs = Inr (v, rest)
      \<and> cls v = 0 \<and> meth v = 1 \<and> tag v = 16
      \<and> parse_children lib (contents v) = Inr ch \<and> 2 \<le> length ch
      \<and> cls (ch ! 0) = 0 \<and> tag (ch ! 0) = 12 \<and> cls (ch ! 1) = 0 \<and> tag (ch ! 1) = 4
      \<and> string_bytes lib 12 (ch ! 0) = Inr nb \<and> utf8_decode nb = Inr filename
      \<and> string_bytes lib 4 (ch ! 1) = Inr data"
  using assms unfolding parse_file_container_def FileContainer_load_def build_string_def
  by (auto split: sum.splits if_splits prod.splits)

section \<open>The wire message\<close>

lemma split_u32:
  "(n::nat) div 16777216 * 16777216 + n div 65536 mod 256 * 65536 + n div 256 mod 256 * 256
     + n mod 256 = n"
proof -
  have "n div 65536 = n div 65536 div 256 * 256 + n div 65536 mod 256" by simp
  moreover have "n div 65536 div 256 = n div 16777216" by (simp add: div_mult2_eq [symmetric])
  moreover have "n div 256 = n div 256 div 256 * 256 + n div 256 mod 256" by simp
  moreover have "n div 256 div 256 = n div 65536" by (simp add: div_mult2_eq [symmetric])
  moreover have "n = n div 256 * 256 + n mod 256" by simp
  ultimately show ?thesis by linarith
qed

lemma struct_pack_unpack:
  assumes "n < 2 ^ 32"
  shows "\<exists>p. struct_pack_I n = Inr p \<and> length p = 4 \<and> struct_unpack_I p = Inr n"
proof -
  have a: "n div 16777216 < 256" using assms by simp
  have "int_from_bytes [byte_of_nat (n div 16777216), byte_of_nat (n div 65536 mod 256),
                byte_of_nat (n div 256 mod 256), byte_of_nat (n mod 256)] = n"
    using split_u32 [of n] a by (simp add: int_from_bytes_def unat_byte_of_nat)
  with assms show ?thesis by (simp add: struct_pack_I_def struct_unpack_I_def)
qed

text \<open>
  Claim C3, as amended. \<open>create_file_container\<close> returns the structured record alone:
  the record parses back to \<open>(filename, data)\<close> as it is. The complete wire message is
  built by the producer's send step (\<open>build_message\<close>, in \<^verbatim>\<open>XPFileMonitorService.main\<close>),
  which puts the four bytes of the record's length, unsigned and most significant
  first, before the record.
\<close>

theorem build_message_prefix_and_record:
  assumes r: "create_file_container filename data = Inr record" and s: "length record < 2 ^ 32"
  shows "\<exists>prefix. struct_pack_I (length record) = Inr prefix \<and> length prefix = 4
           \<and> struct_unpack_I prefix = Inr (length record)
           \<and> build_message filename data = Inr (prefix @ record)
           \<and> parse_file_container lib record = Inr (filename, data)"
proof -
  from struct_pack_unpack [OF s] obtain p where
    p: "struct_pack_I (length record) = Inr p" "length p = 4"
       "struct_unpack_I p = Inr (length record)" by blast
  from r obtain nb where nb: "utf8_encode filename = Inr nb"
      "dump_two_fields id_UTF8String nb id_OctetString data = Inr record"
    by (auto simp: create_file_container_two_fields)
  have m: "length record \<le> sys_maxsize" using s by (simp add: sys_maxsize_def)
  have "parse_file_container lib record = Inr (filename, data)"
    using parse_two_fields [OF nb(2) m, of lib] utf8_roundtrip [OF nb(1)]
    by (simp add: id_UTF8String_def id_OctetString_def)
  with p r show ?thesis by (simp add: build_message_def)
qed

lemma hello_record:
  "create_file_container (str ''hello.txt'') [119, 111, 114, 108, 100] =
     Inr [48, 18, 12, 9, 104, 101, 108, 108, 111, 46, 116, 120, 116, 4, 5, 119, 111, 114, 108, 100]"
  by (simp add: create_file_container_def str_def utf8_encode_char_def dump_value_def
      dump_header_def byte_of_nat_def id_UTF8String_def id_OctetString_def id_Sequence_def)

theorem build_message_prefix_and_record_witness:
  "create_file_container (str ''hello.txt'') [119, 111, 114, 108, 100] =
     Inr [48, 18, 12, 9, 104, 101, 108, 108, 111, 46, 116, 120, 116, 4, 5, 119, 111, 114, 108, 100]
   \<and> struct_pack_I 20 = Inr [0, 0, 0, 20]
   \<and> build_message (str ''hello.txt'') [119, 111, 114, 108, 100] =
     Inr ([0, 0, 0, 20] @ [48, 18, 12, 9, 104, 101, 108, 108, 111, 46, 116, 120, 116, 4, 5, 119, 111, 114, 108, 100])
   \<and> parse_file_container definite_only
       [48, 18, 12, 9, 104, 101, 108, 108, 111, 46, 116, 120, 116, 4, 5, 119, 111, 114, 108, 100]
     = Inr (str ''hello.txt'', [119, 111, 114, 108, 100])"
proof -
  let ?r = "[48, 18, 12, 9, 104, 101, 108, 108, 111, 46, 116, 120, 116, 4, 5, 119, 111, 114, 108, 100] :: bytes"
  have l: "length ?r = 20" by simp
  have p: "struct_pack_I 20 = Inr [0, 0, 0, 20]"
    by (simp add: struct_pack_I_def byte_of_nat_def)
  have "length ?r < 2 ^ 32" by simp
  from build_message_prefix_and_record [OF hello_record this, of definite_only]
  obtain prefix where "struct_pack_I (length ?r) = Inr prefix"
    "build_message (str ''hello.txt'') [119, 111, 114, 108, 100] = Inr (prefix @ ?r)"
    "parse_file_container definite_only ?r = Inr (str ''hello.txt'', [119, 111, 114, 108, 100])"
    by blast
  with p hello_record show ?thesis unfolding l by simp
qed

text \<open>
  Claim C3 as stated fails: for the file \<^verbatim>\<open>hello.txt\<close> with contents \<^verbatim>\<open>world\<close>,
  \<open>create_file_container\<close> returns the 20 bytes of the record, which start with the
  identifier octet of the sequence; the wire message is 24 bytes long and starts with
  the length prefix.
\<close>

theorem create_file_container_prefix_counterexample:
  "create_file_container (str ''hello.txt'') [119, 111, 114, 108, 100] =
     Inr [48, 18, 12, 9, 104, 101, 108, 108, 111, 46, 116, 120, 116, 4, 5, 119, 111, 114, 108, 100]
   \<and> build_message (str ''hello.txt'') [119, 111, 114, 108, 100] =
     Inr [0, 0, 0, 20, 48, 18, 12, 9, 104, 101, 108, 108, 111, 46, 116, 120, 116, 4, 5, 119, 111, 114, 108, 100]
   \<and> create_file_container (str ''hello.txt'') [119, 111, 114, 108, 100]
     \<noteq> build_message (str ''hello.txt'') [119, 111, 114, 108, 100]"
proof -
  have "build_message (str ''hello.txt'') [119, 111, 114, 108, 100] =
     Inr [0, 0, 0, 20, 48, 18, 12, 9, 104, 101, 108, 108, 111, 46, 116, 120, 116, 4, 5, 119, 111, 114, 108, 100]"
    by (simp add: build_message_def hello_record struct_pack_I_def byte_of_nat_def)
  then show ?thesis by (simp add: hello_record)
qed

section \<open>Rejection of malformed records\<close>

text \<open>
  The errors of the library's parser are \<^verbatim>\<open>ValueError\<close>s. For the parts of it that are
  a parameter this is a condition on the parameter.
\<close>

definition raises_only_ValueError :: "ber_forms \<Rightarrow> bool" where
  "raises_only_ValueError ber =
     ((\<forall>bs e. other_header ber bs = Inl e \<longrightarrow> e = ValueError)
      \<and> (\<forall>t bs e. merge_chunks ber t bs = Inl e \<longrightarrow> e = ValueError))"

text \<open>
  An input that starts with a header in one of the forms that are modelled: a tag number
  below 31 and a definite length.
\<close>

definition definite_header :: "bytes \<Rightarrow> bool" where
  "definite_header bs =
     (case bs of
        first_octet # length_octet # bs2 \<Rightarrow>
          unat first_octet mod 32 \<noteq> 31 \<and> unat length_octet \<noteq> 128
      | _ \<Rightarrow> False)"

text \<open>Every failure of the parser is a \<^verbatim>\<open>ValueError\<close> or a \<^verbatim>\<open>UnicodeDecodeError\<close>.\<close>

lemma asn1_parse_ValueError:
  "raises_only_ValueError ber \<Longrightarrow> asn1_parse ber bs = Inl e \<Longrightarrow> e = ValueError"
  by (auto simp: asn1_parse_def raises_only_ValueError_def Let_def
      split: list.splits if_splits)

lemma parse_children_ValueError:
  "raises_only_ValueError ber \<Longrightarrow> parse_children ber bs = Inl e \<Longrightarrow> e = ValueError"
proof (induction ber bs rule: parse_children.induct)
  case (1 lib bs)
  show ?case
  proof (cases "bs = []")
    case True
    with 1(3) show ?thesis by (simp add: parse_children.simps)
  next
    case False
    show ?thesis
    proof (cases "asn1_parse lib bs")
      case (Inl e')
      with False 1(3) have "e' = e" by (subst (asm) parse_children.simps) simp
      with Inl asn1_parse_ValueError [OF 1(2)] show ?thesis by blast
    next
      case (Inr p)
      obtain v rest where p: "p = (v, rest)" by (cases p)
      show ?thesis
      proof (cases "length rest < length bs")
        case True
        with False Inr p 1(3) have "parse_children lib rest = Inl e"
          by (subst (asm) parse_children.simps) (auto split: sum.splits)
        with 1(1) [OF False Inr [unfolded p] refl True 1(2)] show ?thesis by simp
      next
        case False
        with \<open>bs \<noteq> []\<close> Inr p 1(3) show ?thesis
          by (subst (asm) parse_children.simps) simp
      qed
    qed
  qed
qed

lemma build_string_ValueError: "build_string t v = Inl e \<Longrightarrow> e = ValueError"
  by (auto simp: build_string_def split: if_splits)

lemma string_bytes_ValueError:
  "raises_only_ValueError ber \<Longrightarrow> string_bytes ber t v = Inl e \<Longrightarrow> e = ValueError"
  by (auto simp: string_bytes_def raises_only_ValueError_def split: if_splits)

lemma parse_file_container_classes:
  assumes h: "raises_only_ValueError lib"
  shows "(\<exists>name payload. parse_file_container lib bs = Inr (name, payload))
       \<or> parse_file_container lib bs = Inl ValueError
       \<or> parse_file_container lib bs = Inl UnicodeDecodeError"
proof (cases "parse_file_container lib bs")
  case (Inr p)
  then show ?thesis by (cases p) simp
next
  case (Inl e)
  then have "e = ValueError \<or> e = UnicodeDecodeError"
    unfolding parse_file_container_def FileContainer_load_def
    by (auto split: sum.splits if_splits prod.splits
        dest: asn1_parse_ValueError [OF h] parse_children_ValueError [OF h]
          utf8_decode_error build_string_ValueError string_bytes_ValueError [OF h])
  with Inl show ?thesis by auto
qed

text \<open>
  A value with a definite length that is cut anywhere before its end is not read: too few
  bytes remain for the header or for the declared length.
\<close>

lemma length_octet_128:
  fixes l :: byte
  assumes "unat l div 128 \<noteq> 0" "unat l mod 128 = 0"
  shows "unat l = 128"
proof -
  have b: "unat l < 256" using unsigned_less [of l, where ?'a = nat] by simp
  have "unat l = unat l div 128 * 128 + unat l mod 128" by simp
  with assms(2) have e: "unat l = unat l div 128 * 128" by simp
  from b have "unat l div 128 < 2" by simp
  with assms(1) have "unat l div 128 = 1" by simp
  with e show ?thesis by simp
qed

lemma asn1_parse_definite:
  assumes f: "unat f mod 32 \<noteq> 31" and l: "unat l \<noteq> 128"
  shows "asn1_parse lib (f # l # xs) =
     (if unat l div 128 = 0 then
        (if length xs < unat l then Inl ValueError
         else Inr (TLV (unat f div 64) (unat f div 32 mod 2) (unat f mod 32) (take (unat l) xs) False,
                   drop (unat l) xs))
      else if length xs < unat l mod 128 then Inl ValueError
      else if length (drop (unat l mod 128) xs) < int_from_bytes (take (unat l mod 128) xs)
        then Inl ValueError
      else Inr (TLV (unat f div 64) (unat f div 32 mod 2) (unat f mod 32)
                  (take (int_from_bytes (take (unat l mod 128) xs)) (drop (unat l mod 128) xs)) False,
                drop (int_from_bytes (take (unat l mod 128) xs)) (drop (unat l mod 128) xs)))"
proof (cases "unat l div 128 = 0")
  case True
  with f show ?thesis by (simp add: asn1_parse_def Let_def)
next
  case False
  with l length_octet_128 [of l] have "unat l mod 128 \<noteq> 0" by blast
  with False f show ?thesis by (simp add: asn1_parse_def Let_def)
qed

lemma asn1_parse_prefix:
  assumes d: "definite_header bs" and p: "asn1_parse lib bs = Inr (v, rest)"
    and n: "n < length bs - length rest"
  shows "asn1_parse lib (take n bs) = Inl ValueError"
proof -
  from d obtain f l bs2 where bs: "bs = f # l # bs2"
    and f: "unat f mod 32 \<noteq> 31" and l: "unat l \<noteq> 128"
    by (cases bs; cases "tl bs") (simp_all add: definite_header_def)
  note D = asn1_parse_definite [OF f l, of lib]
  show ?thesis
  proof (cases n)
    case 0
    then show ?thesis by (simp add: asn1_parse_def)
  next
    case (Suc n1)
    show ?thesis
    proof (cases n1)
      case 0
      with Suc bs f show ?thesis by (simp add: asn1_parse_def)
    next
      case (Suc m)
      with \<open>n = Suc n1\<close> have t: "take n bs = f # l # take m bs2" using bs by simp
      have p': "asn1_parse lib (f # l # bs2) = Inr (v, rest)" using p bs by simp
      have n': "Suc (Suc m) < Suc (Suc (length bs2)) - length rest"
        using n bs Suc \<open>n = Suc n1\<close> by simp
      show ?thesis
      proof (cases "unat l div 128 = 0")
        case True
        from p' have "\<not> length bs2 < unat l \<and> rest = drop (unat l) bs2"
          unfolding D using True by (simp split: if_splits)
        with n' have "m < unat l" by simp
        then have "length (take m bs2) < unat l" by simp
        with True show ?thesis unfolding t D by simp
      next
        case False
        let ?k = "unat l mod 128"
        let ?N = "int_from_bytes (take ?k bs2)"
        from p' have a: "\<not> length bs2 < ?k \<and> \<not> length (drop ?k bs2) < ?N
            \<and> rest = drop ?N (drop ?k bs2)"
          unfolding D using False by (simp split: if_splits)
        with n' have m: "m < ?k + ?N" by simp
        show ?thesis
        proof (cases "m < ?k")
          case True
          then have "length (take m bs2) < ?k" by simp
          with False show ?thesis unfolding t D by simp
        next
          case g: False
          then have tk: "take ?k (take m bs2) = take ?k bs2" by (simp add: min_def)
          have lt: "length (drop ?k (take m bs2)) < ?N" using m g by simp
          have ge: "\<not> length (take m bs2) < ?k" using g a by (simp add: min_def)
          show ?thesis unfolding t D tk using False ge lt by simp
        qed
      qed
    qed
  qed
qed

text \<open>The result of \<open>parse_file_container\<close>, stage by stage.\<close>

lemma parse_file_container_load_error:
  "asn1_parse lib bs = Inl e \<Longrightarrow> parse_file_container lib bs = Inl e"
  by (simp add: parse_file_container_def FileContainer_load_def)

lemma parse_file_container_no_sequence:
  "asn1_parse lib bs = Inr (v, rest) \<Longrightarrow> cls v \<noteq> 0 \<or> meth v \<noteq> 1 \<or> tag v \<noteq> 16
     \<Longrightarrow> parse_file_container lib bs = Inl ValueError"
  by (auto simp: parse_file_container_def FileContainer_load_def)

lemma isl_build_string: "isl (build_string t v) \<Longrightarrow> build_string t v = Inl ValueError"
  by (cases "build_string t v") (auto dest: build_string_ValueError)

lemma isl_utf8_decode: "isl (utf8_decode nb) \<Longrightarrow> utf8_decode nb = Inl UnicodeDecodeError"
  by (cases "utf8_decode nb") (auto dest: utf8_decode_error)

lemma parse_file_container_fields:
  assumes c: "FileContainer_load lib bs = Inr c"
  shows "parse_children lib (contents c) = Inl e \<Longrightarrow> parse_file_container lib bs = Inl e"
    and "parse_children lib (contents c) = Inr ch \<Longrightarrow> length ch < 2
           \<Longrightarrow> parse_file_container lib bs = Inl ValueError"
    and "parse_children lib (contents c) = Inr ch \<Longrightarrow> 2 \<le> length ch
           \<Longrightarrow> isl (build_string 12 (ch ! 0))
           \<Longrightarrow> parse_file_container lib bs = Inl ValueError"
    and "parse_children lib (contents c) = Inr ch \<Longrightarrow> 2 \<le> length ch
           \<Longrightarrow> build_string 12 (ch ! 0) = Inr nv \<Longrightarrow> string_bytes lib 12 nv = Inr nb
           \<Longrightarrow> isl (utf8_decode nb)
           \<Longrightarrow> parse_file_container lib bs = Inl UnicodeDecodeError"
    and "parse_children lib (contents c) = Inr ch \<Longrightarrow> 2 \<le> length ch
           \<Longrightarrow> build_string 12 (ch ! 0) = Inr nv \<Longrightarrow> string_bytes lib 12 nv = Inr nb
           \<Longrightarrow> utf8_decode nb = Inr name \<Longrightarrow> isl (build_string 4 (ch ! 1))
           \<Longrightarrow> parse_file_container lib bs = Inl ValueError"
    and "parse_children lib (contents c) = Inr ch \<Longrightarrow> 2 \<le> length ch
           \<Longrightarrow> build_string 12 (ch ! 0) = Inr nv \<Longrightarrow> string_bytes lib 12 nv = Inr nb
           \<Longrightarrow> utf8_decode nb = Inr name \<Longrightarrow> build_string 4 (ch ! 1) = Inr dv
           \<Longrightarrow> string_bytes lib 4 dv = Inr payload
           \<Longrightarrow> parse_file_container lib bs = Inr (name, payload)"
proof -
  show "parse_children lib (contents c) = Inl e \<Longrightarrow> parse_file_container lib bs = Inl e"
    using c by (simp add: parse_file_container_def)
  show "parse_children lib (contents c) = Inr ch \<Longrightarrow> length ch < 2
           \<Longrightarrow> parse_file_container lib bs = Inl ValueError"
    using c by (simp add: parse_file_container_def)
  show "parse_children lib (contents c) = Inr ch \<Longrightarrow> 2 \<le> length ch
           \<Longrightarrow> isl (build_string 12 (ch ! 0))
           \<Longrightarrow> parse_file_container lib bs = Inl ValueError"
    using c by (drule_tac isl_build_string) (simp add: parse_file_container_def)
  show "parse_children lib (contents c) = Inr ch \<Longrightarrow> 2 \<le> length ch
           \<Longrightarrow> build_string 12 (ch ! 0) = Inr nv \<Longrightarrow> string_bytes lib 12 nv = Inr nb
           \<Longrightarrow> isl (utf8_decode nb)
           \<Longrightarrow> parse_file_container lib bs = Inl UnicodeDecodeError"
    using c by (drule_tac isl_utf8_decode) (simp add: parse_file_container_def)
  show "parse_children lib (contents c) = Inr ch \<Longrightarrow> 2 \<le> length ch
           \<Longrightarrow> build_string 12 (ch ! 0) = Inr nv \<Longrightarrow> string_bytes lib 12 nv = Inr nb
           \<Longrightarrow> utf8_decode nb = Inr name \<Longrightarrow> isl (build_string 4 (ch ! 1))
           \<Longrightarrow> parse_file_container lib bs = Inl ValueError"
    using c by (drule_tac isl_build_string) (simp add: parse_file_container_def)
  show "parse_children lib (contents c) = Inr ch \<Longrightarrow> 2 \<le> length ch
           \<Longrightarrow> build_string 12 (ch ! 0) = Inr nv \<Longrightarrow> string_bytes lib 12 nv = Inr nb
           \<Longrightarrow> utf8_decode nb = Inr name \<Longrightarrow> build_string 4 (ch ! 1) = Inr dv
           \<Longrightarrow> string_bytes lib 4 dv = Inr payload
           \<Longrightarrow> parse_file_container lib bs = Inr (name, payload)"
    using c by (simp add: parse_file_container_def)
qed

lemma FileContainer_load_ValueError:
  "raises_only_ValueError lib \<Longrightarrow> FileContainer_load lib bs = Inl e \<Longrightarrow> e = ValueError"
  by (cases "asn1_parse lib bs")
    (auto simp: FileContainer_load_def dest: asn1_parse_ValueError split: if_splits)

lemma parse_file_container_decode_error:
  assumes h: "raises_only_ValueError lib"
    and a: "parse_file_container lib bs = Inl UnicodeDecodeError"
  shows "\<exists>c ch nv nb. FileContainer_load lib bs = Inr c
        \<and> parse_children lib (contents c) = Inr ch \<and> 2 \<le> length ch
        \<and> build_string 12 (ch ! 0) = Inr nv \<and> string_bytes lib 12 nv = Inr nb
        \<and> isl (utf8_decode nb)"
proof (cases "FileContainer_load lib bs")
  case (Inl e)
  with a have "e = UnicodeDecodeError" by (simp add: parse_file_container_def)
  with FileContainer_load_ValueError [OF h Inl] show ?thesis by simp
next
  case c: (Inr c)
  show ?thesis
  proof (cases "parse_children lib (contents c)")
    case (Inl e)
    with a c have "e = UnicodeDecodeError" by (simp add: parse_file_container_def)
    with parse_children_ValueError [OF h Inl] show ?thesis by simp
  next
    case ch: (Inr ch)
    show ?thesis
    proof (cases "length ch < 2")
      case True
      with a c ch show ?thesis by (simp add: parse_file_container_def)
    next
      case False
      then have l: "2 \<le> length ch" by simp
      show ?thesis
      proof (cases "build_string 12 (ch ! 0)")
        case (Inl e)
        with build_string_ValueError [OF Inl] a c ch l show ?thesis
          by (simp add: parse_file_container_def)
      next
        case nv: (Inr nv)
        show ?thesis
        proof (cases "string_bytes lib 12 nv")
          case (Inl e)
          with string_bytes_ValueError [OF h Inl] a c ch l nv show ?thesis
            by (simp add: parse_file_container_def)
        next
          case nb: (Inr nb)
          show ?thesis
          proof (cases "utf8_decode nb")
            case (Inl e)
            then have "isl (utf8_decode nb)" by simp
            with c ch l nv nb show ?thesis by blast
          next
            case name: (Inr name)
            show ?thesis
            proof (cases "build_string 4 (ch ! 1)")
              case (Inl e)
              with build_string_ValueError [OF Inl] a c ch l nv nb name show ?thesis
                by (simp add: parse_file_container_def)
            next
              case dv: (Inr dv)
              show ?thesis
              proof (cases "string_bytes lib 4 dv")
                case (Inl e)
                with string_bytes_ValueError [OF h Inl] a c ch l nv nb name dv show ?thesis
                  by (simp add: parse_file_container_def)
              next
                case (Inr payload)
                with a c ch l nv nb name dv show ?thesis
                  by (simp add: parse_file_container_def)
              qed
            qed
          qed
        qed
      qed
    qed
  qed
qed

text \<open>
  Claim C9. For every byte sequence \<open>bs\<close>, \<open>parse_file_container\<close> returns a pair or
  fails with \<^verbatim>\<open>ValueError\<close> or with \<^verbatim>\<open>UnicodeDecodeError\<close>, a subclass of
  \<^verbatim>\<open>ValueError\<close>, provided the parts of the library that are a parameter raise nothing
  but \<^verbatim>\<open>ValueError\<close>. These are the daemon's errors for the specification's malformed
  message and invalid encoding. Which of them it is, is decided as follows, for every input.
  \<^item> \<^verbatim>\<open>UnicodeDecodeError\<close> is raised exactly when the input starts with a sequence of at
    least two values whose first is a \<^verbatim>\<open>UTF8String\<close> with bytes that are not valid UTF-8.
  \<^item> Structure absent: when no value can be read at the start of the input, the error of
    the header parser is raised, a \<^verbatim>\<open>ValueError\<close>; when the value read is not a
    universal constructed value with tag 16, \<^verbatim>\<open>ValueError\<close> is raised.
  \<^item> Structure truncated: when the contents of the sequence do not split into values,
    because a header or a declared length runs past their end, the error of the header
    parser is raised, a \<^verbatim>\<open>ValueError\<close>; and every proper prefix of the bytes of a value
    with a definite length, whatever it holds, is rejected with \<^verbatim>\<open>ValueError\<close>.
  \<^item> Fields missing or of the wrong type: fewer than two values in the sequence, a first
    value that is no \<^verbatim>\<open>UTF8String\<close>, or, after a name that decodes, a second value that
    is no \<^verbatim>\<open>OctetString\<close>, raise \<^verbatim>\<open>ValueError\<close>.
  \<^item> In every other case the pair of the decoded name and the bytes of the second value
    is returned. Values after the second one and bytes after the sequence are not looked
    at, so a record with more fields or with bytes behind it is read like the record of
    its first two fields.

  The same holds in particular for the records that the encoder lays out: no bytes at
  all, a single value that is no sequence, any proper prefix of a record that
  \<open>create_file_container\<close> built, a sequence of no or one value, and a sequence of two
  values with any identifier octets and contents. Whenever a pair is returned, the input
  starts with a universal constructed value with tag 16 whose contents hold at least two
  values, the first a universal value with tag 12 whose bytes decode to the returned name,
  the second a universal value with tag 4 whose bytes are the returned payload.
\<close>

theorem parse_file_container_rejects_malformed:
  "(raises_only_ValueError lib \<longrightarrow>
        ((\<exists>name payload. parse_file_container lib bs = Inr (name, payload))
         \<or> parse_file_container lib bs = Inl ValueError
         \<or> parse_file_container lib bs = Inl UnicodeDecodeError)
      \<and> (parse_file_container lib bs = Inl UnicodeDecodeError \<longleftrightarrow>
           (\<exists>c ch nv nb. FileContainer_load lib bs = Inr c
              \<and> parse_children lib (contents c) = Inr ch \<and> 2 \<le> length ch
              \<and> build_string 12 (ch ! 0) = Inr nv \<and> string_bytes lib 12 nv = Inr nb
              \<and> isl (utf8_decode nb))))
   \<and> (asn1_parse lib bs = Inl e
      \<longrightarrow> parse_file_container lib bs = Inl e \<and> (raises_only_ValueError lib \<longrightarrow> e = ValueError))
   \<and> (asn1_parse lib bs = Inr (v, rest) \<and> (cls v \<noteq> 0 \<or> meth v \<noteq> 1 \<or> tag v \<noteq> 16)
      \<longrightarrow> parse_file_container lib bs = Inl ValueError)
   \<and> (FileContainer_load lib bs = Inr c \<and> parse_children lib (contents c) = Inl e
      \<longrightarrow> parse_file_container lib bs = Inl e \<and> (raises_only_ValueError lib \<longrightarrow> e = ValueError))
   \<and> (FileContainer_load lib bs = Inr c \<and> parse_children lib (contents c) = Inr ch
      \<longrightarrow> (length ch < 2 \<longrightarrow> parse_file_container lib bs = Inl ValueError)
        \<and> (2 \<le> length ch \<and> isl (build_string 12 (ch ! 0))
             \<longrightarrow> parse_file_container lib bs = Inl ValueError)
        \<and> (2 \<le> length ch \<and> build_string 12 (ch ! 0) = Inr nv
              \<and> string_bytes lib 12 nv = Inr nb
             \<longrightarrow> (isl (utf8_decode nb)
                    \<longrightarrow> parse_file_container lib bs = Inl UnicodeDecodeError)
               \<and> (utf8_decode nb = Inr name \<and> isl (build_string 4 (ch ! 1))
                    \<longrightarrow> parse_file_container lib bs = Inl ValueError)
               \<and> (utf8_decode nb = Inr name \<and> build_string 4 (ch ! 1) = Inr dv
                     \<and> string_bytes lib 4 dv = Inr payload
                    \<longrightarrow> parse_file_container lib bs = Inr (name, payload))))
   \<and> (definite_header bs \<and> asn1_parse lib bs = Inr (v, rest) \<and> n < length bs - length rest
      \<longrightarrow> parse_file_container lib (take n bs) = Inl ValueError)
   \<and> parse_file_container lib [] = Inl ValueError
   \<and> (dump_value t c1 = Inr r1 \<and> length r1 \<le> sys_maxsize
        \<and> t < 256 \<and> t mod 32 \<noteq> 31 \<and> t \<noteq> id_Sequence
      \<longrightarrow> parse_file_container lib r1 = Inl ValueError)
   \<and> (create_file_container filename data = Inr r2 \<and> length r2 \<le> sys_maxsize \<and> n < length r2
      \<longrightarrow> parse_file_container lib (take n r2) = Inl ValueError)
   \<and> (dump_value id_Sequence f = Inr r3 \<and> length r3 \<le> sys_maxsize
        \<and> (f = [] \<or> dump_value t' c' = Inr f \<and> t' < 256 \<and> t' mod 32 \<noteq> 31)
      \<longrightarrow> parse_file_container lib r3 = Inl ValueError)
   \<and> (dump_two_fields t1 d1 t2 d2 = Inr r4 \<and> length r4 \<le> sys_maxsize
        \<and> t1 < 256 \<and> t1 mod 32 \<noteq> 31 \<and> t2 < 256 \<and> t2 mod 32 \<noteq> 31
      \<longrightarrow> (t1 \<noteq> id_UTF8String \<longrightarrow> parse_file_container lib r4 = Inl ValueError)
        \<and> (t1 = id_UTF8String \<and> isl (utf8_decode d1)
             \<longrightarrow> parse_file_container lib r4 = Inl UnicodeDecodeError)
        \<and> (t1 = id_UTF8String \<and> \<not> isl (utf8_decode d1) \<and> t2 \<noteq> id_OctetString
             \<longrightarrow> parse_file_container lib r4 = Inl ValueError))
   \<and> (parse_file_container lib bs = Inr (name', payload')
      \<longrightarrow> (\<exists>v rest ch nb. asn1_parse lib bs = Inr (v, rest)
            \<and> cls v = 0 \<and> meth v = 1 \<and> tag v = 16
            \<and> parse_children lib (contents v) = Inr ch \<and> 2 \<le> length ch
            \<and> cls (ch ! 0) = 0 \<and> tag (ch ! 0) = 12 \<and> cls (ch ! 1) = 0 \<and> tag (ch ! 1) = 4
            \<and> string_bytes lib 12 (ch ! 0) = Inr nb \<and> utf8_decode nb = Inr name'
            \<and> string_bytes lib 4 (ch ! 1) = Inr payload'))"
proof -
  have A: "raises_only_ValueError lib \<longrightarrow>
        ((\<exists>name payload. parse_file_container lib bs = Inr (name, payload))
         \<or> parse_file_container lib bs = Inl ValueError
         \<or> parse_file_container lib bs = Inl UnicodeDecodeError)
      \<and> (parse_file_container lib bs = Inl UnicodeDecodeError \<longleftrightarrow>
           (\<exists>c ch nv nb. FileContainer_load lib bs = Inr c
              \<and> parse_children lib (contents c) = Inr ch \<and> 2 \<le> length ch
              \<and> build_string 12 (ch ! 0) = Inr nv \<and> string_bytes lib 12 nv = Inr nb
              \<and> isl (utf8_decode nb)))"
  proof (intro impI conjI iffI)
    assume h: "raises_only_ValueError lib"
    show "(\<exists>name payload. parse_file_container lib bs = Inr (name, payload))
         \<or> parse_file_container lib bs = Inl ValueError
         \<or> parse_file_container lib bs = Inl UnicodeDecodeError"
      by (rule parse_file_container_classes [OF h])
    show "\<exists>c ch nv nb. FileContainer_load lib bs = Inr c
              \<and> parse_children lib (contents c) = Inr ch \<and> 2 \<le> length ch
              \<and> build_string 12 (ch ! 0) = Inr nv \<and> string_bytes lib 12 nv = Inr nb
              \<and> isl (utf8_decode nb)"
      if "parse_file_container lib bs = Inl UnicodeDecodeError"
      by (rule parse_file_container_decode_error [OF h that])
    show "parse_file_container lib bs = Inl UnicodeDecodeError"
      if "\<exists>c ch nv nb. FileContainer_load lib bs = Inr c
              \<and> parse_children lib (contents c) = Inr ch \<and> 2 \<le> length ch
              \<and> build_string 12 (ch ! 0) = Inr nv \<and> string_bytes lib 12 nv = Inr nb
              \<and> isl (utf8_decode nb)"
    proof -
      from that obtain c ch nv nb where "FileContainer_load lib bs = Inr c"
        "parse_children lib (contents c) = Inr ch" "2 \<le> length ch"
        "build_string 12 (ch ! 0) = Inr nv" "string_bytes lib 12 nv = Inr nb"
        "isl (utf8_decode nb)" by (elim exE conjE)
      then show ?thesis by (rule parse_file_container_fields(4))
    qed
  qed
  have B1: "asn1_parse lib bs = Inl e
      \<longrightarrow> parse_file_container lib bs = Inl e \<and> (raises_only_ValueError lib \<longrightarrow> e = ValueError)"
    using parse_file_container_load_error [of lib bs e] asn1_parse_ValueError [of lib bs e]
    by (intro impI conjI) simp_all
  have B2: "asn1_parse lib bs = Inr (v, rest) \<and> (cls v \<noteq> 0 \<or> meth v \<noteq> 1 \<or> tag v \<noteq> 16)
      \<longrightarrow> parse_file_container lib bs = Inl ValueError"
    using parse_file_container_no_sequence [of lib bs v rest] by (intro impI) (elim conjE, simp)
  have B3: "FileContainer_load lib bs = Inr c \<and> parse_children lib (contents c) = Inl e
      \<longrightarrow> parse_file_container lib bs = Inl e \<and> (raises_only_ValueError lib \<longrightarrow> e = ValueError)"
    using parse_file_container_fields(1) [of lib bs c e]
      parse_children_ValueError [of lib "contents c" e]
    by (intro impI conjI) simp_all
  have B4: "FileContainer_load lib bs = Inr c \<and> parse_children lib (contents c) = Inr ch
      \<longrightarrow> (length ch < 2 \<longrightarrow> parse_file_container lib bs = Inl ValueError)
        \<and> (2 \<le> length ch \<and> isl (build_string 12 (ch ! 0))
             \<longrightarrow> parse_file_container lib bs = Inl ValueError)
        \<and> (2 \<le> length ch \<and> build_string 12 (ch ! 0) = Inr nv
              \<and> string_bytes lib 12 nv = Inr nb
             \<longrightarrow> (isl (utf8_decode nb)
                    \<longrightarrow> parse_file_container lib bs = Inl UnicodeDecodeError)
               \<and> (utf8_decode nb = Inr name \<and> isl (build_string 4 (ch ! 1))
                    \<longrightarrow> parse_file_container lib bs = Inl ValueError)
               \<and> (utf8_decode nb = Inr name \<and> build_string 4 (ch ! 1) = Inr dv
                     \<and> string_bytes lib 4 dv = Inr payload
                    \<longrightarrow> parse_file_container lib bs = Inr (name, payload)))"
  proof (intro impI conjI; elim conjE)
    assume c: "FileContainer_load lib bs = Inr c" and ch: "parse_children lib (contents c) = Inr ch"
    note F = parse_file_container_fields [OF c]
    show "length ch < 2 \<Longrightarrow> parse_file_container lib bs = Inl ValueError"
      by (rule F(2) [OF ch])
    show "2 \<le> length ch \<Longrightarrow> isl (build_string 12 (ch ! 0))
            \<Longrightarrow> parse_file_container lib bs = Inl ValueError"
      by (rule F(3) [OF ch])
    show "2 \<le> length ch \<Longrightarrow> build_string 12 (ch ! 0) = Inr nv
            \<Longrightarrow> string_bytes lib 12 nv = Inr nb \<Longrightarrow> isl (utf8_decode nb)
            \<Longrightarrow> parse_file_container lib bs = Inl UnicodeDecodeError"
      by (rule F(4) [OF ch])
    show "2 \<le> length ch \<Longrightarrow> build_string 12 (ch ! 0) = Inr nv
            \<Longrightarrow> string_bytes lib 12 nv = Inr nb \<Longrightarrow> utf8_decode nb = Inr name
            \<Longrightarrow> isl (build_string 4 (ch ! 1))
            \<Longrightarrow> parse_file_container lib bs = Inl ValueError"
      by (rule F(5) [OF ch])
    show "2 \<le> length ch \<Longrightarrow> build_string 12 (ch ! 0) = Inr nv
            \<Longrightarrow> string_bytes lib 12 nv = Inr nb \<Longrightarrow> utf8_decode nb = Inr name
            \<Longrightarrow> build_string 4 (ch ! 1) = Inr dv \<Longrightarrow> string_bytes lib 4 dv = Inr payload
            \<Longrightarrow> parse_file_container lib bs = Inr (name, payload)"
      by (rule F(6) [OF ch])
  qed
  have C: "definite_header bs \<and> asn1_parse lib bs = Inr (v, rest) \<and> n < length bs - length rest
      \<longrightarrow> parse_file_container lib (take n bs) = Inl ValueError"
  proof (intro impI; elim conjE)
    assume "definite_header bs" "asn1_parse lib bs = Inr (v, rest)" "n < length bs - length rest"
    then have "asn1_parse lib (take n bs) = Inl ValueError" by (rule asn1_parse_prefix)
    then show "parse_file_container lib (take n bs) = Inl ValueError"
      by (rule parse_file_container_load_error)
  qed
  have D1: "parse_file_container lib [] = Inl ValueError"
    by (simp add: parse_file_container_def FileContainer_load_def asn1_parse_def)
  have D2: "dump_value t c1 = Inr r1 \<and> length r1 \<le> sys_maxsize
        \<and> t < 256 \<and> t mod 32 \<noteq> 31 \<and> t \<noteq> id_Sequence
      \<longrightarrow> parse_file_container lib r1 = Inl ValueError"
    using parse_single_value by blast
  have D3: "create_file_container filename data = Inr r2 \<and> length r2 \<le> sys_maxsize \<and> n < length r2
      \<longrightarrow> parse_file_container lib (take n r2) = Inl ValueError"
    using parse_truncated by blast
  have D4: "dump_value id_Sequence f = Inr r3 \<and> length r3 \<le> sys_maxsize
        \<and> (f = [] \<or> dump_value t' c' = Inr f \<and> t' < 256 \<and> t' mod 32 \<noteq> 31)
      \<longrightarrow> parse_file_container lib r3 = Inl ValueError"
    using parse_few_fields by blast
  have D5: "dump_two_fields t1 d1 t2 d2 = Inr r4 \<and> length r4 \<le> sys_maxsize
        \<and> t1 < 256 \<and> t1 mod 32 \<noteq> 31 \<and> t2 < 256 \<and> t2 mod 32 \<noteq> 31
      \<longrightarrow> (t1 \<noteq> id_UTF8String \<longrightarrow> parse_file_container lib r4 = Inl ValueError)
        \<and> (t1 = id_UTF8String \<and> isl (utf8_decode d1)
             \<longrightarrow> parse_file_container lib r4 = Inl UnicodeDecodeError)
        \<and> (t1 = id_UTF8String \<and> \<not> isl (utf8_decode d1) \<and> t2 \<noteq> id_OctetString
             \<longrightarrow> parse_file_container lib r4 = Inl ValueError)"
  proof (intro impI)
    assume a: "dump_two_fields t1 d1 t2 d2 = Inr r4 \<and> length r4 \<le> sys_maxsize
        \<and> t1 < 256 \<and> t1 mod 32 \<noteq> 31 \<and> t2 < 256 \<and> t2 mod 32 \<noteq> 31"
    then have p: "parse_file_container lib r4 =
       (if t1 \<noteq> id_UTF8String then Inl ValueError
        else case utf8_decode d1 of
          Inl e \<Rightarrow> Inl e
        | Inr filename \<Rightarrow>
            if t2 \<noteq> id_OctetString then Inl ValueError else Inr (filename, d2))"
      using parse_two_fields by blast
    show "(t1 \<noteq> id_UTF8String \<longrightarrow> parse_file_container lib r4 = Inl ValueError)
        \<and> (t1 = id_UTF8String \<and> isl (utf8_decode d1)
             \<longrightarrow> parse_file_container lib r4 = Inl UnicodeDecodeError)
        \<and> (t1 = id_UTF8String \<and> \<not> isl (utf8_decode d1) \<and> t2 \<noteq> id_OctetString
             \<longrightarrow> parse_file_container lib r4 = Inl ValueError)"
      unfolding p by (auto simp: isl_def dest: utf8_decode_error split: sum.splits)
  qed
  have D6: "parse_file_container lib bs = Inr (name', payload')
      \<longrightarrow> (\<exists>v rest ch nb. asn1_parse lib bs = Inr (v, rest)
            \<and> cls v = 0 \<and> meth v = 1 \<and> tag v = 16
            \<and> parse_children lib (contents v) = Inr ch \<and> 2 \<le> length ch
            \<and> cls (ch ! 0) = 0 \<and> tag (ch ! 0) = 12 \<and> cls (ch ! 1) = 0 \<and> tag (ch ! 1) = 4
            \<and> string_bytes lib 12 (ch ! 0) = Inr nb \<and> utf8_decode nb = Inr name'
            \<and> string_bytes lib 4 (ch ! 1) = Inr payload')"
    by (intro impI) (rule parse_file_container_Inr)
  from A B1 B2 B3 B4 C D1 D2 D3 D4 D5 D6 show ?thesis by (intro conjI)
qed

text \<open>
  Sample inputs for the parser of the definite-length encodings: values cut short, a
  sequence whose field runs past its end, a name that is not valid UTF-8, and a record
  of three fields followed by other bytes.
\<close>

lemma definite_only_ValueError: "raises_only_ValueError definite_only"
  by (simp add: raises_only_ValueError_def definite_only_def)

lemma sample_values:
  "asn1_parse definite_only [48] = Inl ValueError"
  "asn1_parse definite_only [4, 2, 1, 2] = Inr (TLV 0 0 4 [1, 2] False, [])"
  "asn1_parse definite_only [48, 3, 12, 5, 104] = Inr (TLV 0 1 16 [12, 5, 104] False, [])"
  "asn1_parse definite_only [12, 5, 104] = Inl ValueError"
  "asn1_parse definite_only [48, 5, 12, 1, 104, 4, 0, 9, 9]
     = Inr (TLV 0 1 16 [12, 1, 104, 4, 0] False, [9, 9])"
  "asn1_parse definite_only [48, 8, 12, 1, 104, 4, 0, 4, 1, 7, 9, 9, 9]
     = Inr (TLV 0 1 16 [12, 1, 104, 4, 0, 4, 1, 7] False, [9, 9, 9])"
  "asn1_parse definite_only [12, 1, 104, 4, 0, 4, 1, 7] = Inr (TLV 0 0 12 [104] False, [4, 0, 4, 1, 7])"
  "asn1_parse definite_only [4, 0, 4, 1, 7] = Inr (TLV 0 0 4 [] False, [4, 1, 7])"
  "asn1_parse definite_only [4, 1, 7] = Inr (TLV 0 0 4 [7] False, [])"
  "asn1_parse definite_only [48, 5, 12, 1, 255, 4, 0] = Inr (TLV 0 1 16 [12, 1, 255, 4, 0] False, [])"
  "asn1_parse definite_only [12, 1, 255, 4, 0] = Inr (TLV 0 0 12 [255] False, [4, 0])"
  "asn1_parse definite_only [4, 0] = Inr (TLV 0 0 4 [] False, [])"
  by (simp_all add: asn1_parse_def definite_only_def Let_def int_from_bytes_def)

lemma sample_children:
  "parse_children definite_only [12, 5, 104] = Inl ValueError"
  "parse_children definite_only [12, 1, 104, 4, 0, 4, 1, 7]
     = Inr [TLV 0 0 12 [104] False, TLV 0 0 4 [] False, TLV 0 0 4 [7] False]"
  "parse_children definite_only [12, 1, 255, 4, 0] = Inr [TLV 0 0 12 [255] False, TLV 0 0 4 [] False]"
proof -
  have e: "parse_children definite_only [] = Inr []" by (simp add: parse_children.simps)
  show "parse_children definite_only [12, 5, 104] = Inl ValueError"
    by (subst parse_children.simps) (simp add: sample_values)
  have a: "parse_children definite_only [4, 1, 7] = Inr [TLV 0 0 4 [7] False]"
    by (subst parse_children.simps) (simp add: sample_values e)
  have b: "parse_children definite_only [4, 0, 4, 1, 7] = Inr [TLV 0 0 4 [] False, TLV 0 0 4 [7] False]"
    by (subst parse_children.simps) (simp add: sample_values a)
  show "parse_children definite_only [12, 1, 104, 4, 0, 4, 1, 7]
     = Inr [TLV 0 0 12 [104] False, TLV 0 0 4 [] False, TLV 0 0 4 [7] False]"
    by (subst parse_children.simps) (simp add: sample_values b)
  have c: "parse_children definite_only [4, 0] = Inr [TLV 0 0 4 [] False]"
    by (subst parse_children.simps) (simp add: sample_values e)
  show "parse_children definite_only [12, 1, 255, 4, 0] = Inr [TLV 0 0 12 [255] False, TLV 0 0 4 [] False]"
    by (subst parse_children.simps) (simp add: sample_values c)
qed

lemma sample_loads:
  "FileContainer_load definite_only [48, 3, 12, 5, 104] = Inr (TLV 0 1 16 [12, 5, 104] False)"
  "FileContainer_load definite_only [48, 8, 12, 1, 104, 4, 0, 4, 1, 7, 9, 9, 9]
     = Inr (TLV 0 1 16 [12, 1, 104, 4, 0, 4, 1, 7] False)"
  "FileContainer_load definite_only [48, 5, 12, 1, 255, 4, 0]
     = Inr (TLV 0 1 16 [12, 1, 255, 4, 0] False)"
  by (simp_all add: FileContainer_load_def sample_values)

lemma sample_strings:
  "build_string 12 (TLV 0 0 12 [104] False) = Inr (TLV 0 0 12 [104] False)"
  "build_string 12 (TLV 0 0 12 [255] False) = Inr (TLV 0 0 12 [255] False)"
  "build_string 4 (TLV 0 0 4 [] False) = Inr (TLV 0 0 4 [] False)"
  "string_bytes definite_only 12 (TLV 0 0 12 [104] False) = Inr [104]"
  "string_bytes definite_only 12 (TLV 0 0 12 [255] False) = Inr [255]"
  "string_bytes definite_only 4 (TLV 0 0 4 [] False) = Inr []"
  "utf8_decode [104] = Inr [104]"
  "isl (utf8_decode [255])"
  by (simp_all add: build_string_def string_bytes_def utf8_decode.simps utf8_next_def
      cons_decoded_def)

lemmas dump_eval = dump_two_fields_def dump_value_def dump_header_def byte_of_nat_def
  id_UTF8String_def id_OctetString_def id_Sequence_def

theorem parse_file_container_rejects_malformed_witness:
  "raises_only_ValueError definite_only
   \<and> parse_file_container definite_only [] = Inl ValueError
   \<and> parse_file_container definite_only [48] = Inl ValueError
   \<and> parse_file_container definite_only [4, 2, 1, 2] = Inl ValueError
   \<and> parse_file_container definite_only [48, 3, 12, 5, 104] = Inl ValueError
   \<and> parse_file_container definite_only [48, 18, 12, 9, 104, 101, 108, 108, 111, 46]
       = Inl ValueError
   \<and> parse_file_container definite_only [48, 5, 12, 1, 104, 4] = Inl ValueError
   \<and> parse_file_container definite_only [48, 0] = Inl ValueError
   \<and> parse_file_container definite_only [48, 6, 4, 2, 104, 105, 4, 0] = Inl ValueError
   \<and> parse_file_container definite_only [48, 5, 12, 1, 255, 4, 0] = Inl UnicodeDecodeError
   \<and> (\<exists>c ch nv nb. FileContainer_load definite_only [48, 5, 12, 1, 255, 4, 0] = Inr c
         \<and> parse_children definite_only (contents c) = Inr ch \<and> 2 \<le> length ch
         \<and> build_string 12 (ch ! 0) = Inr nv \<and> string_bytes definite_only 12 nv = Inr nb
         \<and> isl (utf8_decode nb))
   \<and> parse_file_container definite_only [48, 5, 12, 1, 104, 12, 0] = Inl ValueError
   \<and> parse_file_container definite_only [48, 5, 12, 1, 104, 4, 0] = Inr ([104], [])
   \<and> parse_file_container definite_only [48, 8, 12, 1, 104, 4, 0, 4, 1, 7, 9, 9, 9]
       = Inr ([104], [])
   \<and> (\<exists>v rest ch. asn1_parse definite_only [48, 5, 12, 1, 104, 4, 0] = Inr (v, rest)
         \<and> tag v = 16 \<and> parse_children definite_only (contents v) = Inr ch
         \<and> tag (ch ! 0) = 12 \<and> tag (ch ! 1) = 4)"
proof -
  have m: "\<And>n. n \<le> 100 \<Longrightarrow> n \<le> sys_maxsize" by (simp add: sys_maxsize_def)
  note T = parse_file_container_rejects_malformed [where lib = definite_only]
  note h = definite_only_ValueError
  have 1: "parse_file_container definite_only [] = Inl ValueError"
    by (rule T [THEN conjunct2, THEN conjunct2, THEN conjunct2, THEN conjunct2, THEN conjunct2,
          THEN conjunct2, THEN conjunct1])
  have 2: "parse_file_container definite_only [48] = Inl ValueError"
    using T [where bs = "[48]" and e = ValueError, THEN conjunct2, THEN conjunct1]
    by (simp add: sample_values)
  have 3: "parse_file_container definite_only [4, 2, 1, 2] = Inl ValueError"
    using T [where bs = "[4, 2, 1, 2]" and v = "TLV 0 0 4 [1, 2] False" and rest = "[]",
        THEN conjunct2, THEN conjunct2, THEN conjunct1]
    by (simp add: sample_values)
  have 4: "parse_file_container definite_only [48, 3, 12, 5, 104] = Inl ValueError"
    using T [where bs = "[48, 3, 12, 5, 104]" and c = "TLV 0 1 16 [12, 5, 104] False"
        and e = ValueError, THEN conjunct2, THEN conjunct2, THEN conjunct2, THEN conjunct1]
    by (simp add: sample_loads sample_children)
  have "take 10 [48, 18, 12, 9, 104, 101, 108, 108, 111, 46, 116, 120, 116, 4, 5, 119, 111, 114, 108, 100 :: byte]
         = [48, 18, 12, 9, 104, 101, 108, 108, 111, 46]" by simp
  then have 5: "parse_file_container definite_only [48, 18, 12, 9, 104, 101, 108, 108, 111, 46]
       = Inl ValueError"
    using T [where filename = "str ''hello.txt''" and data = "[119, 111, 114, 108, 100]" and n = 10
        and ?r2.0 = "[48, 18, 12, 9, 104, 101, 108, 108, 111, 46, 116, 120, 116, 4, 5, 119, 111, 114, 108, 100]",
        THEN conjunct2, THEN conjunct2, THEN conjunct2, THEN conjunct2, THEN conjunct2,
        THEN conjunct2, THEN conjunct2, THEN conjunct2, THEN conjunct1]
      hello_record
    by (simp add: m)
  have "definite_header [48, 5, 12, 1, 104, 4, 0, 9, 9]"
    by (simp add: definite_header_def)
  moreover have "take 6 [48, 5, 12, 1, 104, 4, 0, 9, 9 :: byte] = [48, 5, 12, 1, 104, 4]" by simp
  ultimately have 6: "parse_file_container definite_only [48, 5, 12, 1, 104, 4] = Inl ValueError"
    using T [where bs = "[48, 5, 12, 1, 104, 4, 0, 9, 9]"
        and v = "TLV 0 1 16 [12, 1, 104, 4, 0] False" and rest = "[9, 9]" and n = 6,
        THEN conjunct2, THEN conjunct2, THEN conjunct2, THEN conjunct2, THEN conjunct2,
        THEN conjunct1]
    by (simp add: sample_values)
  have "dump_value id_Sequence [] = Inr [48, 0]" by (simp add: dump_eval)
  then have 7: "parse_file_container definite_only [48, 0] = Inl ValueError"
    using T [where f = "[]" and ?r3.0 = "[48, 0]",
        THEN conjunct2, THEN conjunct2, THEN conjunct2, THEN conjunct2, THEN conjunct2,
        THEN conjunct2, THEN conjunct2, THEN conjunct2, THEN conjunct2, THEN conjunct1]
    by (simp add: m)
  have "dump_two_fields 4 [104, 105] 4 [] = Inr [48, 6, 4, 2, 104, 105, 4, 0]"
    by (simp add: dump_eval)
  then have 8: "parse_file_container definite_only [48, 6, 4, 2, 104, 105, 4, 0] = Inl ValueError"
    using T [where ?t1.0 = 4 and ?d1.0 = "[104, 105]" and ?t2.0 = 4 and ?d2.0 = "[]"
        and ?r4.0 = "[48, 6, 4, 2, 104, 105, 4, 0]",
        THEN conjunct2, THEN conjunct2, THEN conjunct2, THEN conjunct2, THEN conjunct2,
        THEN conjunct2, THEN conjunct2, THEN conjunct2, THEN conjunct2, THEN conjunct2,
        THEN conjunct1]
    by (simp add: m id_UTF8String_def)
  have "dump_two_fields id_UTF8String [255] 4 [] = Inr [48, 5, 12, 1, 255, 4, 0]"
    by (simp add: dump_eval)
  then have 9: "parse_file_container definite_only [48, 5, 12, 1, 255, 4, 0]
       = Inl UnicodeDecodeError"
    using T [where ?t1.0 = id_UTF8String and ?d1.0 = "[255]" and ?t2.0 = 4 and ?d2.0 = "[]"
        and ?r4.0 = "[48, 5, 12, 1, 255, 4, 0]",
        THEN conjunct2, THEN conjunct2, THEN conjunct2, THEN conjunct2, THEN conjunct2,
        THEN conjunct2, THEN conjunct2, THEN conjunct2, THEN conjunct2, THEN conjunct2,
        THEN conjunct1] sample_strings(8)
    by (simp add: m id_UTF8String_def)
  have 10: "\<exists>c ch nv nb. FileContainer_load definite_only [48, 5, 12, 1, 255, 4, 0] = Inr c
         \<and> parse_children definite_only (contents c) = Inr ch \<and> 2 \<le> length ch
         \<and> build_string 12 (ch ! 0) = Inr nv \<and> string_bytes definite_only 12 nv = Inr nb
         \<and> isl (utf8_decode nb)"
    using T [where bs = "[48, 5, 12, 1, 255, 4, 0]", THEN conjunct1, THEN mp, OF h,
        THEN conjunct2, THEN iffD1, OF 9] .
  have "dump_two_fields id_UTF8String [104] 12 [] = Inr [48, 5, 12, 1, 104, 12, 0]"
    by (simp add: dump_eval)
  then have 11: "parse_file_container definite_only [48, 5, 12, 1, 104, 12, 0] = Inl ValueError"
    using T [where ?t1.0 = id_UTF8String and ?d1.0 = "[104]" and ?t2.0 = 12 and ?d2.0 = "[]"
        and ?r4.0 = "[48, 5, 12, 1, 104, 12, 0]",
        THEN conjunct2, THEN conjunct2, THEN conjunct2, THEN conjunct2, THEN conjunct2,
        THEN conjunct2, THEN conjunct2, THEN conjunct2, THEN conjunct2, THEN conjunct2,
        THEN conjunct1] sample_strings(7)
    by (simp add: m id_UTF8String_def id_OctetString_def)
  have "dump_two_fields id_UTF8String [104] id_OctetString [] = Inr [48, 5, 12, 1, 104, 4, 0]"
    by (simp add: dump_eval)
  from parse_two_fields [OF this, of definite_only]
  have 12: "parse_file_container definite_only [48, 5, 12, 1, 104, 4, 0] = Inr ([104], [])"
    by (simp add: m sample_strings(7) id_UTF8String_def id_OctetString_def)
  have 13: "parse_file_container definite_only [48, 8, 12, 1, 104, 4, 0, 4, 1, 7, 9, 9, 9]
       = Inr ([104], [])"
    using T [where bs = "[48, 8, 12, 1, 104, 4, 0, 4, 1, 7, 9, 9, 9]"
        and c = "TLV 0 1 16 [12, 1, 104, 4, 0, 4, 1, 7] False"
        and ch = "[TLV 0 0 12 [104] False, TLV 0 0 4 [] False, TLV 0 0 4 [7] False]"
        and nv = "TLV 0 0 12 [104] False" and nb = "[104]" and name = "[104]"
        and dv = "TLV 0 0 4 [] False" and payload = "[]",
        THEN conjunct2, THEN conjunct2, THEN conjunct2, THEN conjunct2, THEN conjunct1]
    by (simp add: sample_loads sample_children sample_strings)
  have 14: "\<exists>v rest ch. asn1_parse definite_only [48, 5, 12, 1, 104, 4, 0] = Inr (v, rest)
         \<and> tag v = 16 \<and> parse_children definite_only (contents v) = Inr ch
         \<and> tag (ch ! 0) = 12 \<and> tag (ch ! 1) = 4"
    using T [where bs = "[48, 5, 12, 1, 104, 4, 0]" and name' = "[104]" and payload' = "[]",
        THEN conjunct2, THEN conjunct2, THEN conjunct2, THEN conjunct2, THEN conjunct2,
        THEN conjunct2, THEN conjunct2, THEN conjunct2, THEN conjunct2, THEN conjunct2,
        THEN conjunct2, THEN mp, OF 12]
    by blast
  from h 1 2 3 4 5 6 7 8 9 10 11 12 13 14 show ?thesis by (intro conjI)
qed

section \<open>The environment of the daemon\<close>

subsection \<open>Paths\<close>

text \<open>
  Paths are Python strings. \<^verbatim>\<open>os.path.join(a, b)\<close> with two arguments on a POSIX
  system: an absolute \<open>b\<close> replaces \<open>a\<close>; otherwise \<open>b\<close> is appended, after a slash
  unless \<open>a\<close> is empty or ends with one. \<^verbatim>\<open>os.path.dirname\<close> is everything up to
  the last slash, with the trailing slashes dropped unless nothing else is left.
\<close>

type_synonym path = py_str

definition slash :: nat where
  "slash = 47"

definition os_path_join :: "path \<Rightarrow> path \<Rightarrow> path" where
  "os_path_join a b =
     (if b \<noteq> [] \<and> hd b = slash then b
      else if a = [] \<or> last a = slash then a @ b
      else a @ [slash] @ b)"

definition rstrip_slash :: "path \<Rightarrow> path" where
  "rstrip_slash p = rev (dropWhile (\<lambda>c. c = slash) (rev p))"

definition os_path_dirname :: "path \<Rightarrow> path" where
  "os_path_dirname p =
     (let head = rev (dropWhile (\<lambda>c. c \<noteq> slash) (rev p))
      in if head \<noteq> [] \<and> rstrip_slash head \<noteq> [] then rstrip_slash head else head)"

text \<open>
  \<^verbatim>\<open>str(n)\<close> for a number that is not negative: its decimal digits.
\<close>

fun str_of_nat :: "nat \<Rightarrow> py_str" where
  "str_of_nat n =
     (if n < 10 then [48 + n] else str_of_nat (n div 10) @ [48 + n mod 10])"

declare str_of_nat.simps [simp del]

subsection \<open>The world\<close>

text \<open>
  What the daemon can observe and change outside itself: the directories, the
  regular files with their contents and the socket files of the file system; the
  paths at which the operating system refuses to create or change anything (missing
  permissions, a full disk); the clock, in seconds since the epoch; the random seeds
  that key generation will draw; and the trace of the effects so far, in order.
  Paths are compared as they are written: the model does not resolve \<^verbatim>\<open>.\<close>,
  \<^verbatim>\<open>..\<close>, repeated slashes or symbolic links.
\<close>

datatype event =
    RemovedFile path
  | ReadFile path
  | WroteFile path
  | MadeDirs path
  | GeneratedKey
  | Bound path
  | Listening
  | Accepted
  | LoggedProtocolError exn
  | LoggedUnexpectedError exn
  | ClosedConnection
  | ClosedServer

record world =
  dirs :: "path set"
  files :: "path \<rightharpoonup> bytes"
  socket_files :: "path set"
  denied :: "path set"
  clock :: nat
  seeds :: "nat list"
  trace :: "event list"

definition emit :: "event \<Rightarrow> world \<Rightarrow> world" where
  "emit ev w = w\<lparr>trace := trace w @ [ev]\<rparr>"

text \<open>The events of a run from \<open>w\<close> to \<open>w'\<close>.\<close>

definition new_events :: "world \<Rightarrow> world \<Rightarrow> event list" where
  "new_events w w' = drop (length (trace w)) (trace w')"

subsection \<open>File-system calls\<close>

definition os_path_exists :: "path \<Rightarrow> world \<Rightarrow> bool" where
  "os_path_exists p w = (p \<in> dirs w \<or> p \<in> dom (files w) \<or> p \<in> socket_files w)"

definition is_root :: "path \<Rightarrow> bool" where
  "is_root p = (p \<noteq> [] \<and> rstrip_slash p = [])"

text \<open>
  The directory in which a path is created must exist: the current directory for a
  bare name, the root, or a directory of the world. A regular file in its place
  gives \<^verbatim>\<open>NotADirectoryError\<close>, nothing at all \<^verbatim>\<open>FileNotFoundError\<close>.
\<close>

definition parent_error :: "path \<Rightarrow> world \<Rightarrow> exn option" where
  "parent_error p w =
     (let d = os_path_dirname p in
      if d = [] \<or> is_root d \<or> d \<in> dirs w then None
      else if d \<in> dom (files w) \<or> d \<in> socket_files w then Some NotADirectoryError
      else Some FileNotFoundError)"

text \<open>
  \<^verbatim>\<open>os.remove(p)\<close>.
\<close>

definition os_remove :: "path \<Rightarrow> world \<Rightarrow> (exn + unit) \<times> world" where
  "os_remove p w =
     (if p \<in> dirs w then (Inl IsADirectoryError, w)
      else if \<not> os_path_exists p w then (Inl FileNotFoundError, w)
      else if p \<in> denied w then (Inl PermissionError, w)
      else (Inr (), emit (RemovedFile p)
              (w\<lparr>files := (files w)(p := None), socket_files := socket_files w - {p}\<rparr>)))"

text \<open>
  \<^verbatim>\<open>with open(p, "wb") as f: f.write(data)\<close>: the file is created or replaced. It
  fails for the empty path, for a path with a trailing slash or of a directory, for
  a missing parent directory, for a socket file, and where the system refuses.
\<close>

definition write_file :: "path \<Rightarrow> bytes \<Rightarrow> world \<Rightarrow> (exn + unit) \<times> world" where
  "write_file p data w =
     (if p = [] then (Inl FileNotFoundError, w)
      else if 0 \<in> set p then (Inl ValueError, w)
      else if last p = slash \<or> p \<in> dirs w then (Inl IsADirectoryError, w)
      else (case parent_error p w of
        Some e \<Rightarrow> (Inl e, w)
      | None \<Rightarrow>
          if p \<in> socket_files w then (Inl OSError, w)
          else if p \<in> denied w then (Inl PermissionError, w)
          else (Inr (), emit (WroteFile p) (w\<lparr>files := (files w)(p \<mapsto> data)\<rparr>))))"

text \<open>
  \<^verbatim>\<open>with open(p, "rb") as f: f.read()\<close>.
\<close>

definition read_file :: "path \<Rightarrow> world \<Rightarrow> (exn + bytes) \<times> world" where
  "read_file p w =
     (if p \<in> dirs w then (Inl IsADirectoryError, w)
      else (case files w p of
        None \<Rightarrow> (if p \<in> socket_files w then (Inl OSError, w) else (Inl FileNotFoundError, w))
      | Some data \<Rightarrow>
          if p \<in> denied w then (Inl PermissionError, w)
          else (Inr data, emit (ReadFile p) w)))"

text \<open>
  \<^verbatim>\<open>os.makedirs(p, exist_ok=True)\<close> creates the directory and every missing
  directory above it. \<open>ancestors p\<close> are the path itself and the prefixes of it that
  end before a slash, shortest first; all of them are directories afterwards. The
  call fails when one of them is a file, or must be created where the system
  refuses.
\<close>

fun prefixes_at_slash :: "path \<Rightarrow> path \<Rightarrow> path list" where
  "prefixes_at_slash acc [] = (if rstrip_slash acc = [] then [] else [rstrip_slash acc])"
| "prefixes_at_slash acc (c # cs) =
     (if c = slash \<and> acc \<noteq> [] \<and> last acc \<noteq> slash then [acc] else [])
     @ prefixes_at_slash (acc @ [c]) cs"

definition ancestors :: "path \<Rightarrow> path list" where
  "ancestors p = remdups (prefixes_at_slash [] p)"

definition os_makedirs :: "path \<Rightarrow> world \<Rightarrow> (exn + unit) \<times> world" where
  "os_makedirs p w =
     (if p = [] then (Inl FileNotFoundError, w)
      else if \<exists>a \<in> set (ancestors p). a \<in> dom (files w) \<or> a \<in> socket_files w
        then (Inl (if rstrip_slash p \<in> dom (files w) \<or> rstrip_slash p \<in> socket_files w
                   then FileExistsError else NotADirectoryError), w)
      else if \<exists>a \<in> set (ancestors p). a \<notin> dirs w \<and> a \<in> denied w
        then (Inl PermissionError, w)
      else (Inr (), emit (MadeDirs p) (w\<lparr>dirs := dirs w \<union> set (ancestors p)\<rparr>)))"

section \<open>Key management\<close>

text \<open>
  The \<^verbatim>\<open>cryptography\<close> library is a parameter of the model: key generation from
  the system's randomness, the PEM serialisations of a private key (PKCS8, not
  encrypted) and of its public key (SubjectPublicKeyInfo), the PEM parser, which
  returns a private key of some algorithm or raises, and the Ed25519 signature.
\<close>

datatype 'k loaded_key = Ed25519PrivateKey 'k | OtherPrivateKey

record ('k, 'p) crypto =
  generate :: "nat \<Rightarrow> 'k"
  private_bytes :: "'k \<Rightarrow> bytes"
  public_key :: "'k \<Rightarrow> 'p"
  public_bytes :: "'p \<Rightarrow> bytes"
  load_pem_private_key :: "bytes \<Rightarrow> exn + 'k loaded_key"
  sign :: "'k \<Rightarrow> bytes \<Rightarrow> bytes"

definition SOCKET_PATH :: path where
  "SOCKET_PATH = str ''/tmp/org.causality.attestation''"

definition OUTPUT_BASE_DIR :: path where
  "OUTPUT_BASE_DIR = str ''/var/lib/attestation_results''"

definition SIGNING_KEY_PATH :: path where
  "SIGNING_KEY_PATH = str ''/var/lib/pcr_attestation_keys/signing_key.pem''"

definition save_private_key ::
  "('k, 'p) crypto \<Rightarrow> 'k \<Rightarrow> path \<Rightarrow> world \<Rightarrow> (exn + unit) \<times> world" where
  "save_private_key lib private_key key_path w =
     write_file key_path (private_bytes lib private_key) w"

definition save_public_key ::
  "('k, 'p) crypto \<Rightarrow> 'p \<Rightarrow> path \<Rightarrow> world \<Rightarrow> (exn + unit) \<times> world" where
  "save_public_key lib pub output_dir w =
     (case os_makedirs output_dir w of
        (Inl e, w1) \<Rightarrow> (Inl e, w1)
      | (Inr u, w1) \<Rightarrow>
          write_file (os_path_join output_dir (str ''signing_key.pub.pem''))
            (public_bytes lib pub) w1)"

text \<open>\<^verbatim>\<open>Ed25519PrivateKey.generate()\<close> draws the next seed of the world.\<close>

definition generate_key :: "('k, 'p) crypto \<Rightarrow> world \<Rightarrow> 'k \<times> world" where
  "generate_key lib w =
     (generate lib (case seeds w of [] \<Rightarrow> 0 | s # ss \<Rightarrow> s),
      emit GeneratedKey (w\<lparr>seeds := tl (seeds w)\<rparr>))"

text \<open>
  \<^verbatim>\<open>get_signing_key(key_path)\<close>. With a file at the path, the key is read and
  parsed; a \<^verbatim>\<open>ValueError\<close> or \<^verbatim>\<open>InvalidKey\<close> of the parser becomes an
  \<^verbatim>\<open>AttestationDaemonError\<close>, as does a key of another algorithm; any other
  exception passes through. Without a file, a key is generated, written to the path,
  and its public key is written below \<open>OUTPUT_BASE_DIR\<close>.
\<close>

definition get_signing_key ::
  "('k, 'p) crypto \<Rightarrow> path \<Rightarrow> world \<Rightarrow> (exn + 'k) \<times> world" where
  "get_signing_key lib key_path w =
     (if os_path_exists key_path w then
        (case read_file key_path w of
           (Inl e, w1) \<Rightarrow> (Inl e, w1)
         | (Inr pem, w1) \<Rightarrow>
             (case load_pem_private_key lib pem of
                Inl e \<Rightarrow>
                  if is_ValueError e \<or> e = InvalidKey then (Inl AttestationDaemonError, w1)
                  else (Inl e, w1)
              | Inr (Ed25519PrivateKey key) \<Rightarrow> (Inr key, w1)
              | Inr OtherPrivateKey \<Rightarrow> (Inl AttestationDaemonError, w1)))
      else
        (case generate_key lib w of (private_key, w1) \<Rightarrow>
        (case save_private_key lib private_key key_path w1 of
           (Inl e, w2) \<Rightarrow> (Inl e, w2)
         | (Inr u, w2) \<Rightarrow>
        (case save_public_key lib (public_key lib private_key) OUTPUT_BASE_DIR w2 of
           (Inl e, w3) \<Rightarrow> (Inl e, w3)
         | (Inr u, w3) \<Rightarrow> (Inr private_key, w3)))))"


section \<open>Connections\<close>

text \<open>
  A connection is what its peer does with it: the segments of bytes the peer sends,
  in order, and then closes. \<^verbatim>\<open>recv(n)\<close> blocks until data is there and returns
  at most \<open>n\<close> bytes of the next segment; after the last segment it returns the
  empty byte string. A peer that neither sends nor closes, on which \<^verbatim>\<open>recv\<close> would
  block for ever, is not in the model. \<open>arrival\<close> is the time at which the daemon
  accepts the connection.
\<close>

record connection =
  arrival :: nat
  pending :: "bytes list"
  closed :: bool

definition sock_recv :: "connection \<Rightarrow> nat \<Rightarrow> bytes \<times> connection" where
  "sock_recv c n =
     (case dropWhile (\<lambda>s. s = []) (pending c) of
        [] \<Rightarrow> ([], c\<lparr>pending := []\<rparr>)
      | s # ss \<Rightarrow>
          if length s \<le> n then (s, c\<lparr>pending := ss\<rparr>)
          else (take n s, c\<lparr>pending := drop n s # ss\<rparr>))"

text \<open>
  \<^verbatim>\<open>recvall(sock, count)\<close>: the loop over \<^verbatim>\<open>recv\<close>, with the buffer as an
  argument.
\<close>

lemma recvall_progress:
  "chunk \<noteq> [] \<Longrightarrow> length buf < count
     \<Longrightarrow> count - (length buf + length chunk) < count - length buf"
  by (cases chunk) auto

function recvall_loop :: "connection \<Rightarrow> nat \<Rightarrow> bytes \<Rightarrow> (exn + bytes) \<times> connection" where
  "recvall_loop sock count buf =
     (if length buf < count then
        (case sock_recv sock (count - length buf) of (chunk, sock') \<Rightarrow>
           if chunk = [] then (Inl RuntimeError, sock')
           else recvall_loop sock' count (buf @ chunk))
      else (Inr buf, sock))"
  by pat_completeness auto
termination
  by (relation "measure (\<lambda>(sock, count, buf). count - length buf)")
    (auto intro: recvall_progress)

declare recvall_loop.simps [simp del]

definition recvall :: "connection \<Rightarrow> nat \<Rightarrow> (exn + bytes) \<times> connection" where
  "recvall sock count = recvall_loop sock count []"


section \<open>Handling a connection\<close>

text \<open>\<^verbatim>\<open>base64.b64encode\<close>: the standard alphabet, with padding.\<close>

definition b64_char :: "nat \<Rightarrow> byte" where
  "b64_char n =
     (if n < 26 then byte_of_nat (65 + n)
      else if n < 52 then byte_of_nat (97 + (n - 26))
      else if n < 62 then byte_of_nat (48 + (n - 52))
      else if n = 62 then 43
      else 47)"

fun b64encode :: "bytes \<Rightarrow> bytes" where
  "b64encode [] = []"
| "b64encode [a] =
     [b64_char (unat a div 4), b64_char (unat a mod 4 * 16), 61, 61]"
| "b64encode [a, b] =
     [b64_char (unat a div 4), b64_char (unat a mod 4 * 16 + unat b div 16),
      b64_char (unat b mod 16 * 4), 61]"
| "b64encode (a # b # c # rest) =
     [b64_char (unat a div 4), b64_char (unat a mod 4 * 16 + unat b div 16),
      b64_char (unat b mod 16 * 4 + unat c div 64), b64_char (unat c mod 64)]
     @ b64encode rest"

text \<open>
  \<^verbatim>\<open>handle_file_data(conn, output_base_dir, signing_key)\<close>. The result is the
  exception or the normal return, the connection as far as it was read, and the world
  with every effect up to that point. The SHA-256 hash that the source computes is
  only printed; of the prints, the trace keeps the two error logs of
  \<open>handle_connection\<close> alone.
\<close>

definition handle_file_data ::
  "('k, 'p) crypto \<Rightarrow> ber_forms \<Rightarrow> connection \<Rightarrow> path \<Rightarrow> 'k \<Rightarrow> world
     \<Rightarrow> (exn + unit) \<times> connection \<times> world" where
  "handle_file_data lib ber conn output_base_dir signing_key w =
     (case recvall conn 4 of
        (Inl e, conn1) \<Rightarrow> (Inl e, conn1, w)
      | (Inr length_bytes, conn1) \<Rightarrow>
     (case struct_unpack_I length_bytes of
        Inl e \<Rightarrow> (Inl e, conn1, w)
      | Inr total_length \<Rightarrow>
     (case recvall conn1 total_length of
        (Inl e, conn2) \<Rightarrow> (Inl e, conn2, w)
      | (Inr der_data, conn2) \<Rightarrow>
     (case parse_file_container ber der_data of
        Inl e \<Rightarrow> (Inl e, conn2, w)
      | Inr (filename, file_data) \<Rightarrow>
          let timestamp = str_of_nat (clock w);
              output_dir = os_path_join output_base_dir timestamp
          in
     (case os_makedirs output_dir w of
        (Inl e, w1) \<Rightarrow> (Inl e, conn2, w1)
      | (Inr u, w1) \<Rightarrow>
          let file_path = os_path_join output_dir filename in
     (case write_file file_path file_data w1 of
        (Inl e, w2) \<Rightarrow> (Inl e, conn2, w2)
      | (Inr u, w2) \<Rightarrow>
          let signature = sign lib signing_key file_data;
              signature_b64 = b64encode signature;
              signature_path = file_path @ str ''.sig''
          in
     (case write_file signature_path signature_b64 w2 of
        (Inl e, w3) \<Rightarrow> (Inl e, conn2, w3)
      | (Inr u, w3) \<Rightarrow> (Inr (), conn2, w3))))))))"

text \<open>\<^verbatim>\<open>conn.close()\<close>.\<close>

definition close_connection :: "connection \<Rightarrow> world \<Rightarrow> connection \<times> world" where
  "close_connection conn w = (conn\<lparr>closed := True\<rparr>, emit ClosedConnection w)"

text \<open>
  \<^verbatim>\<open>handle_connection\<close>: the \<^verbatim>\<open>try\<close> around \<open>handle_file_data\<close>. An
  \<^verbatim>\<open>AttestationDaemonError\<close> is logged as a protocol error, any other
  \<^verbatim>\<open>Exception\<close> as an unexpected error; an exception that is no \<^verbatim>\<open>Exception\<close>
  passes through. The \<^verbatim>\<open>finally\<close> clause closes the connection in every case.
\<close>

definition handle_connection ::
  "('k, 'p) crypto \<Rightarrow> ber_forms \<Rightarrow> connection \<Rightarrow> path \<Rightarrow> 'k \<Rightarrow> world
     \<Rightarrow> (exn + unit) \<times> connection \<times> world" where
  "handle_connection lib ber conn output_base_dir signing_key w =
     (case handle_file_data lib ber conn output_base_dir signing_key w of
        (Inr u, conn1, w1) \<Rightarrow>
          (case close_connection conn1 w1 of (conn2, w2) \<Rightarrow> (Inr (), conn2, w2))
      | (Inl e, conn1, w1) \<Rightarrow>
          if e = AttestationDaemonError then
            (case close_connection conn1 (emit (LoggedProtocolError e) w1) of
               (conn2, w2) \<Rightarrow> (Inr (), conn2, w2))
          else if is_Exception e then
            (case close_connection conn1 (emit (LoggedUnexpectedError e) w1) of
               (conn2, w2) \<Rightarrow> (Inr (), conn2, w2))
          else
            (case close_connection conn1 w1 of (conn2, w2) \<Rightarrow> (Inl e, conn2, w2)))"


section \<open>The daemon loop\<close>

text \<open>
  The listening socket. \<^verbatim>\<open>bind\<close> creates the socket file; it fails when the path
  exists (the address is in use), when its directory is missing, and where the
  system refuses.
\<close>

definition sock_bind :: "path \<Rightarrow> world \<Rightarrow> (exn + unit) \<times> world" where
  "sock_bind p w =
     (if p = [] then (Inl FileNotFoundError, w)
      else if os_path_exists p w then (Inl OSError, w)
      else (case parent_error p w of
        Some e \<Rightarrow> (Inl e, w)
      | None \<Rightarrow>
          if p \<in> denied w then (Inl PermissionError, w)
          else (Inr (), emit (Bound p) (w\<lparr>socket_files := insert p (socket_files w)\<rparr>))))"

text \<open>
  The accept loop of \<open>run_server\<close>, \<^verbatim>\<open>while True\<close>. The connections that arrive
  before the daemon is interrupted are an argument; once they are used up, the
  interrupt arrives while \<^verbatim>\<open>accept\<close> blocks and raises \<^verbatim>\<open>KeyboardInterrupt\<close>. The
  loop ends with an exception only; the result is that exception.
\<close>

fun accept_loop ::
  "('k, 'p) crypto \<Rightarrow> ber_forms \<Rightarrow> path \<Rightarrow> 'k \<Rightarrow> connection list \<Rightarrow> world
     \<Rightarrow> exn \<times> world" where
  "accept_loop lib ber output_base_dir signing_key [] w = (KeyboardInterrupt, w)"
| "accept_loop lib ber output_base_dir signing_key (conn # conns) w =
     (case handle_connection lib ber conn output_base_dir signing_key
             (emit Accepted (w\<lparr>clock := arrival conn\<rparr>)) of
        (Inl e, conn', w') \<Rightarrow> (e, w')
      | (Inr u, conn', w') \<Rightarrow> accept_loop lib ber output_base_dir signing_key conns w')"

text \<open>
  \<^verbatim>\<open>run_server(socket_path, output_base_dir)\<close>, for the connections \<open>incoming\<close>. A
  stale socket file is removed, the signing key is loaded or created at
  \<open>SIGNING_KEY_PATH\<close>, the socket is bound and listens, and the accept loop runs.
  \<^verbatim>\<open>KeyboardInterrupt\<close> ends the loop normally; the \<^verbatim>\<open>finally\<close> clause closes the
  socket and removes its file. An exception before the \<^verbatim>\<open>try\<close> leaves the function
  at once.
\<close>

definition run_server ::
  "('k, 'p) crypto \<Rightarrow> ber_forms \<Rightarrow> path \<Rightarrow> path \<Rightarrow> connection list \<Rightarrow> world
     \<Rightarrow> (exn + unit) \<times> world" where
  "run_server lib ber socket_path output_base_dir incoming w =
     (case (if os_path_exists socket_path w then os_remove socket_path w else (Inr (), w)) of
        (Inl e, w1) \<Rightarrow> (Inl e, w1)
      | (Inr u, w1) \<Rightarrow>
     (case get_signing_key lib SIGNING_KEY_PATH w1 of
        (Inl e, w2) \<Rightarrow> (Inl e, w2)
      | (Inr signing_key, w2) \<Rightarrow>
     (case sock_bind socket_path w2 of
        (Inl e, w3) \<Rightarrow> (Inl e, w3)
      | (Inr u, w3) \<Rightarrow>
     (case accept_loop lib ber output_base_dir signing_key incoming (emit Listening w3) of
        (e, w4) \<Rightarrow>
          let outcome = (if e = KeyboardInterrupt then Inr () else Inl e);
              w5 = emit ClosedServer w4
          in if os_path_exists socket_path w5
             then (case os_remove socket_path w5 of
                     (Inl e', w6) \<Rightarrow> (Inl e', w6)
                   | (Inr u, w6) \<Rightarrow> (outcome, w6))
             else (outcome, w5)))))"

section \<open>Reading an exact number of bytes\<close>

lemma concat_dropWhile_empty: "concat (dropWhile (\<lambda>s. s = []) xs) = concat xs"
  by (induction xs) auto

lemma sock_recv_eof:
  "concat (pending c) = [] \<Longrightarrow> sock_recv c n = ([], c\<lparr>pending := []\<rparr>)"
proof -
  assume a: "concat (pending c) = []"
  have "dropWhile (\<lambda>s. s = []) (pending c) = []"
  proof (cases "dropWhile (\<lambda>s. s = []) (pending c)")
    case Nil
    then show ?thesis .
  next
    case (Cons s ss)
    then have "s \<noteq> []" using hd_dropWhile [of "\<lambda>s. s = []" "pending c"] by auto
    moreover from Cons have "concat (pending c) = s @ concat ss"
      using concat_dropWhile_empty [of "pending c"] by simp
    ultimately show ?thesis using a by simp
  qed
  then show ?thesis unfolding sock_recv_def by (simp only: list.simps)
qed

lemma sock_recv_data:
  assumes "concat (pending c) \<noteq> []" "0 < n" "sock_recv c n = (chunk, c')"
  shows "chunk \<noteq> [] \<and> length chunk \<le> n \<and> chunk @ concat (pending c') = concat (pending c)
         \<and> arrival c' = arrival c \<and> closed c' = closed c"
proof (cases "dropWhile (\<lambda>s. s = []) (pending c)")
  case Nil
  then have "concat (pending c) = []"
    using concat_dropWhile_empty [of "pending c"] by simp
  with assms show ?thesis by simp
next
  case (Cons s ss)
  then have s: "s \<noteq> []" using hd_dropWhile [of "\<lambda>s. s = []" "pending c"] by auto
  from Cons have t: "concat (pending c) = s @ concat ss"
    using concat_dropWhile_empty [of "pending c"] by simp
  show ?thesis
  proof (cases "length s \<le> n")
    case True
    with Cons assms(3) have "chunk = s" "c' = c\<lparr>pending := ss\<rparr>" by (auto simp: sock_recv_def)
    with s t True show ?thesis by simp
  next
    case False
    with Cons assms(3) have "chunk = take n s" "c' = c\<lparr>pending := drop n s # ss\<rparr>"
      by (auto simp: sock_recv_def)
    with s t False assms(2) show ?thesis by auto
  qed
qed

lemma recvall_loop_result:
  "length buf \<le> count \<Longrightarrow>
   (if count \<le> length buf + length (concat (pending c))
    then \<exists>c'. recvall_loop c count buf
                = (Inr (buf @ take (count - length buf) (concat (pending c))), c')
           \<and> concat (pending c') = drop (count - length buf) (concat (pending c))
           \<and> arrival c' = arrival c \<and> closed c' = closed c
    else \<exists>c'. recvall_loop c count buf = (Inl RuntimeError, c') \<and> pending c' = []
           \<and> arrival c' = arrival c \<and> closed c' = closed c)"
proof (induction c count buf rule: recvall_loop.induct)
  case (1 sock count buf)
  show ?case
  proof (cases "length buf < count")
    case False
    with 1(2) show ?thesis by (subst recvall_loop.simps) simp
  next
    case True
    obtain chunk sock' where r: "sock_recv sock (count - length buf) = (chunk, sock')"
      by (cases "sock_recv sock (count - length buf)")
    show ?thesis
    proof (cases "concat (pending sock) = []")
      case e: True
      from sock_recv_eof [OF e] r have c: "chunk = []" "sock' = sock\<lparr>pending := []\<rparr>" by auto
      have "recvall_loop sock count buf = (Inl RuntimeError, sock')"
        using True r c(1) by (subst recvall_loop.simps) (simp only: if_True prod.case refl)
      then show ?thesis using True c(2) unfolding e by simp
    next
      case ne: False
      from True have n: "0 < count - length buf" by simp
      from sock_recv_data [OF ne n r] have d: "chunk \<noteq> []" "length chunk \<le> count - length buf"
        "chunk @ concat (pending sock') = concat (pending sock)"
        "arrival sock' = arrival sock" "closed sock' = closed sock" by auto
      from d(2) True have le: "length (buf @ chunk) \<le> count" by simp
      have u: "recvall_loop sock count buf = recvall_loop sock' count (buf @ chunk)"
        using True r d(1) by (subst recvall_loop.simps) simp
      note IH = 1(1) [OF True r [symmetric] d(1) le]
      have len: "length (concat (pending sock)) = length chunk + length (concat (pending sock'))"
        using d(3) by (metis length_append)
      show ?thesis
      proof (cases "count \<le> length buf + length (concat (pending sock))")
        case c: True
        then have c': "count \<le> length (buf @ chunk) + length (concat (pending sock'))"
          using len by simp
        from IH c' obtain c2 where
          c2: "recvall_loop sock' count (buf @ chunk)
                = (Inr ((buf @ chunk) @ take (count - length (buf @ chunk)) (concat (pending sock'))), c2)"
              "concat (pending c2) = drop (count - length (buf @ chunk)) (concat (pending sock'))"
              "arrival c2 = arrival sock'" "closed c2 = closed sock'"
          by auto
        have t: "chunk @ take (count - length (buf @ chunk)) (concat (pending sock'))
                 = take (count - length buf) (concat (pending sock))"
          using d(2) d(3) [symmetric] by simp
        have dr: "drop (count - length (buf @ chunk)) (concat (pending sock'))
                 = drop (count - length buf) (concat (pending sock))"
          using d(2) d(3) [symmetric] by simp
        from c c2 t dr u d(4,5) show ?thesis by simp
      next
        case c: False
        then have c': "\<not> count \<le> length (buf @ chunk) + length (concat (pending sock'))"
          using len by simp
        from IH c' obtain c2 where
          "recvall_loop sock' count (buf @ chunk) = (Inl RuntimeError, c2)" "pending c2 = []"
          "arrival c2 = arrival sock'" "closed c2 = closed sock'"
          by auto
        with c u d(4,5) show ?thesis by simp
      qed
    qed
  qed
qed

lemma recvall_enough:
  assumes "count \<le> length (concat (pending c))"
  shows "\<exists>c'. recvall c count = (Inr (take count (concat (pending c))), c')
           \<and> concat (pending c') = drop count (concat (pending c))
           \<and> arrival c' = arrival c \<and> closed c' = closed c"
  using recvall_loop_result [of "[]" count c] assms by (simp add: recvall_def)

lemma recvall_short:
  assumes "length (concat (pending c)) < count"
  shows "\<exists>c'. recvall c count = (Inl RuntimeError, c') \<and> pending c' = []
           \<and> arrival c' = arrival c \<and> closed c' = closed c"
  using recvall_loop_result [of "[]" count c] assms by (simp add: recvall_def)

section \<open>Sample values\<close>

text \<open>
  Small values on which the model is run: an instance of the cryptographic library
  whose keys are numbers, an empty world, and a connection whose peer declares a
  record of 100 bytes, sends 10 of them in pieces and closes.
\<close>

definition toy_crypto :: "(nat, nat) crypto" where
  "toy_crypto =
     \<lparr>generate = (\<lambda>seed. seed),
      private_bytes = (\<lambda>k. [80, byte_of_nat k]),
      public_key = (\<lambda>k. k + 100),
      public_bytes = (\<lambda>p. [81, byte_of_nat p]),
      load_pem_private_key =
        (\<lambda>pem. case pem of
           [t, b] \<Rightarrow>
             if t = 80 then Inr (Ed25519PrivateKey (unat b))
             else if t = 82 then Inr OtherPrivateKey
             else Inl ValueError
         | _ \<Rightarrow> Inl ValueError),
      sign = (\<lambda>k data. byte_of_nat k # data)\<rparr>"

definition empty_world :: world where
  "empty_world =
     \<lparr>dirs = {}, files = Map.empty, socket_files = {}, denied = {}, clock = 0, seeds = [],
      trace = []\<rparr>"

definition truncated_conn :: connection where
  "truncated_conn =
     \<lparr>arrival = 7, pending = [[0, 0], [0, 100, 1, 2], [], [3, 4, 5, 6, 7, 8, 9, 10]],
      closed = False\<rparr>"

section \<open>Premature close\<close>

lemma struct_unpack_I_4: "length b = 4 \<Longrightarrow> struct_unpack_I b = Inr (int_from_bytes b)"
  by (simp add: struct_unpack_I_def)

lemma handle_file_data_short_prefix:
  assumes "length (concat (pending conn)) < 4"
  shows "\<exists>conn'. handle_file_data lib ber conn out key w = (Inl RuntimeError, conn', w)"
proof -
  from recvall_short [of conn 4] assms obtain c' where "recvall conn 4 = (Inl RuntimeError, c')"
    by auto
  then show ?thesis by (simp add: handle_file_data_def)
qed

lemma handle_file_data_short_record:
  assumes a: "4 \<le> length (concat (pending conn))"
    and b: "length (concat (pending conn)) < 4 + int_from_bytes (take 4 (concat (pending conn)))"
  shows "\<exists>conn'. handle_file_data lib ber conn out key w = (Inl RuntimeError, conn', w)"
proof -
  let ?t = "concat (pending conn)"
  from recvall_enough [OF a] obtain c1 where
    c1: "recvall conn 4 = (Inr (take 4 ?t), c1)" "concat (pending c1) = drop 4 ?t" by auto
  have l: "length (take 4 ?t) = 4" using a by simp
  have "length (concat (pending c1)) < int_from_bytes (take 4 ?t)" using c1(2) a b by simp
  from recvall_short [OF this] obtain c2 where
    "recvall c1 (int_from_bytes (take 4 ?t)) = (Inl RuntimeError, c2)" by auto
  with c1(1) show ?thesis
    by (simp add: handle_file_data_def struct_unpack_I_4 [OF l])
qed



section \<open>Effects of the file-system calls\<close>

lemma new_events_emit [simp]: "new_events w (emit ev w') = new_events w w' @ [ev]"
  if "length (trace w) \<le> length (trace w')"
  using that by (simp add: new_events_def emit_def)

lemma new_events_self [simp]: "new_events w w = []"
  by (simp add: new_events_def)

lemma write_file_cases:
  "write_file p d w = (r, w') \<Longrightarrow>
     (r = Inr () \<and> w' = emit (WroteFile p) (w\<lparr>files := (files w)(p \<mapsto> d)\<rparr>))
     \<or> (\<exists>e. r = Inl e \<and> is_Exception e \<and> w' = w)"
  by (auto simp: write_file_def parent_error_def Let_def is_Exception_def
      split: if_splits option.splits)

lemma os_makedirs_cases:
  "os_makedirs p w = (r, w') \<Longrightarrow>
     (r = Inr () \<and> w' = emit (MadeDirs p) (w\<lparr>dirs := dirs w \<union> set (ancestors p)\<rparr>)
        \<and> (\<forall>a \<in> set (ancestors p). a \<notin> dom (files w) \<and> a \<notin> socket_files w))
     \<or> (\<exists>e. r = Inl e \<and> is_Exception e \<and> w' = w)"
  unfolding os_makedirs_def
  by (auto simp: is_Exception_def split: if_splits)

lemma read_file_cases:
  "read_file p w = (r, w') \<Longrightarrow>
     (\<exists>d. r = Inr d \<and> files w p = Some d \<and> w' = emit (ReadFile p) w)
     \<or> (\<exists>e. r = Inl e \<and> is_Exception e \<and> w' = w)"
  by (auto simp: read_file_def is_Exception_def split: if_splits option.splits)

lemma os_remove_cases:
  "os_remove p w = (r, w') \<Longrightarrow>
     (r = Inr () \<and> w' = emit (RemovedFile p)
              (w\<lparr>files := (files w)(p := None), socket_files := socket_files w - {p}\<rparr>))
     \<or> (\<exists>e. r = Inl e \<and> is_Exception e \<and> w' = w)"
  by (auto simp: os_remove_def is_Exception_def split: if_splits)

lemma sock_bind_cases:
  "sock_bind p w = (r, w') \<Longrightarrow>
     (r = Inr () \<and> w' = emit (Bound p) (w\<lparr>socket_files := insert p (socket_files w)\<rparr>))
     \<or> (\<exists>e. r = Inl e \<and> is_Exception e \<and> w' = w)"
  by (auto simp: sock_bind_def parent_error_def Let_def is_Exception_def
      split: if_splits option.splits)


lemma trace_emit [simp]: "trace (emit ev w) = trace w @ [ev]"
  by (simp add: emit_def)

lemma files_emit [simp]: "files (emit ev w) = files w"
  by (simp add: emit_def)

lemma dirs_emit [simp]: "dirs (emit ev w) = dirs w"
  by (simp add: emit_def)

lemma os_path_join_sig:
  "os_path_join d (filename @ str ''.sig'') = os_path_join d filename @ str ''.sig''"
  by (cases filename) (auto simp: os_path_join_def str_def slash_def)

lemma sig_suffix_nonempty: "str ''.sig'' \<noteq> []"
  by (simp add: str_def)

lemma handle_file_data_received:
  assumes "4 + int_from_bytes (take 4 (concat (pending conn))) \<le> length (concat (pending conn))"
  shows "\<exists>c1 c2. recvall conn 4 = (Inr (take 4 (concat (pending conn))), c1)
       \<and> struct_unpack_I (take 4 (concat (pending conn)))
           = Inr (int_from_bytes (take 4 (concat (pending conn))))
       \<and> recvall c1 (int_from_bytes (take 4 (concat (pending conn))))
           = (Inr (take (int_from_bytes (take 4 (concat (pending conn))))
                    (drop 4 (concat (pending conn)))), c2)"
proof -
  let ?t = "concat (pending conn)"
  let ?n = "int_from_bytes (take 4 ?t)"
  from assms have a: "4 \<le> length ?t" by simp
  from recvall_enough [OF a] obtain c1 where
    c1: "recvall conn 4 = (Inr (take 4 ?t), c1)" "concat (pending c1) = drop 4 ?t" by auto
  have l: "length (take 4 ?t) = 4" using a by simp
  have "?n \<le> length (concat (pending c1))" using c1(2) assms by simp
  from recvall_enough [OF this] obtain c2 where
    "recvall c1 ?n = (Inr (take ?n (concat (pending c1))), c2)" by auto
  with c1 struct_unpack_I_4 [OF l] show ?thesis by auto
qed

text \<open>
  Claim C1. For every connection whose message decodes to \<open>(filename, data)\<close>:
  when \<open>handle_file_data\<close> returns, the file at the receipt directory joined with
  \<open>filename + ".sig"\<close> holds exactly the base64 encoding of the library's signature,
  with the daemon's key, of the decoded bytes \<open>data\<close>, and the received file holds
  \<open>data\<close>; when it raises instead (a directory or file that cannot be written),
  no signature file is written. The signature function is any function of the key
  and the message, so the message it is given is \<open>data\<close> itself, neither hashed nor
  cut.
\<close>

theorem signature_file_contents:
  assumes total: "4 + int_from_bytes (take 4 (concat (pending conn))) \<le> length (concat (pending conn))"
    and msg: "parse_file_container ber
                (take (int_from_bytes (take 4 (concat (pending conn))))
                   (drop 4 (concat (pending conn)))) = Inr (filename, data)"
  shows "let output_dir = os_path_join out (str_of_nat (clock w));
             file_path = os_path_join output_dir filename;
             signature_path = os_path_join output_dir (filename @ str ''.sig'')
         in case handle_file_data lib ber conn out key w of
              (Inr u, conn', w') \<Rightarrow>
                files w' signature_path = Some (b64encode (sign lib key data))
                \<and> files w' file_path = Some data
                \<and> new_events w w' = [MadeDirs output_dir, WroteFile file_path,
                                     WroteFile signature_path]
            | (Inl e, conn', w') \<Rightarrow>
                WroteFile signature_path \<notin> set (new_events w w')
                \<and> files w' signature_path = files w signature_path"
proof -
  define od where "od = os_path_join out (str_of_nat (clock w))"
  define fp where "fp = os_path_join od filename"
  define sp where "sp = os_path_join od (filename @ str ''.sig'')"
  have sp_eq: "sp = fp @ str ''.sig''" by (simp add: sp_def fp_def os_path_join_sig)
  have ne: "sp \<noteq> fp" "fp \<noteq> sp" by (simp_all add: sp_eq sig_suffix_nonempty)
  from handle_file_data_received [OF total] obtain c1 c2 where
    rc: "recvall conn 4 = (Inr (take 4 (concat (pending conn))), c1)"
        "struct_unpack_I (take 4 (concat (pending conn)))
           = Inr (int_from_bytes (take 4 (concat (pending conn))))"
        "recvall c1 (int_from_bytes (take 4 (concat (pending conn))))
           = (Inr (take (int_from_bytes (take 4 (concat (pending conn))))
                    (drop 4 (concat (pending conn)))), c2)"
    by blast
  obtain r1 w1 where m: "os_makedirs od w = (r1, w1)" by (cases "os_makedirs od w")
  obtain r2 w2 where f: "write_file fp data w1 = (r2, w2)" by (cases "write_file fp data w1")
  obtain r3 w3 where g: "write_file sp (b64encode (sign lib key data)) w2 = (r3, w3)"
    by (cases "write_file sp (b64encode (sign lib key data)) w2")
  have h: "handle_file_data lib ber conn out key w =
     (case r1 of Inl e \<Rightarrow> (Inl e, c2, w1) | Inr u \<Rightarrow>
      (case r2 of Inl e \<Rightarrow> (Inl e, c2, w2) | Inr u \<Rightarrow>
       (case r3 of Inl e \<Rightarrow> (Inl e, c2, w3) | Inr u \<Rightarrow> (Inr (), c2, w3))))"
    using rc msg m f g
    by (simp add: handle_file_data_def Let_def od_def [symmetric] fp_def [symmetric]
        sp_eq [symmetric] split: sum.splits)
  have "case handle_file_data lib ber conn out key w of
              (Inr u, conn', w') \<Rightarrow>
                files w' sp = Some (b64encode (sign lib key data))
                \<and> files w' fp = Some data
                \<and> new_events w w' = [MadeDirs od, WroteFile fp, WroteFile sp]
            | (Inl e, conn', w') \<Rightarrow>
                WroteFile sp \<notin> set (new_events w w') \<and> files w' sp = files w sp"
  proof -
    from os_makedirs_cases [OF m] show ?thesis
    proof (elim disjE conjE exE)
      fix e assume "r1 = Inl e" "w1 = w"
      with h show ?thesis by simp
    next
      assume r1: "r1 = Inr ()" and w1: "w1 = emit (MadeDirs od) (w\<lparr>dirs := dirs w \<union> set (ancestors od)\<rparr>)"
      from write_file_cases [OF f] show ?thesis
      proof (elim disjE conjE exE)
        fix e assume "r2 = Inl e" "w2 = w1"
        with h r1 w1 show ?thesis by (simp add: new_events_def)
      next
        assume r2: "r2 = Inr ()" and w2: "w2 = emit (WroteFile fp) (w1\<lparr>files := (files w1)(fp \<mapsto> data)\<rparr>)"
        from write_file_cases [OF g] show ?thesis
        proof (elim disjE conjE exE)
          fix e assume "r3 = Inl e" "w3 = w2"
          with h r1 w1 r2 w2 ne show ?thesis by (simp add: new_events_def)
        next
          assume "r3 = Inr ()"
            and "w3 = emit (WroteFile sp) (w2\<lparr>files := (files w2)(sp \<mapsto> b64encode (sign lib key data))\<rparr>)"
          with h r1 w1 r2 w2 ne show ?thesis by (simp add: new_events_def)
        qed
      qed
    qed
  qed
  then show ?thesis unfolding Let_def sp_def fp_def od_def .
qed

text \<open>
  A connection that delivers the file \<^verbatim>\<open>hello.txt\<close> with contents \<^verbatim>\<open>world\<close> in
  four segments.
\<close>

definition hello_conn :: connection where
  "hello_conn =
     \<lparr>arrival = 7,
      pending = [[0, 0], [0, 20, 48, 18, 12, 9, 104, 101, 108], [108, 111, 46, 116, 120, 116, 4, 5, 119, 111],
                 [114, 108, 100]],
      closed = False\<rparr>"

lemma hello_parses:
  "parse_file_container definite_only
     [48, 18, 12, 9, 104, 101, 108, 108, 111, 46, 116, 120, 116, 4, 5, 119, 111, 114, 108, 100]
   = Inr (str ''hello.txt'', [119, 111, 114, 108, 100])"
proof -
  have "length [48, 18, 12, 9, 104, 101, 108, 108, 111, 46, 116, 120, 116, 4, 5, 119, 111, 114, 108, 100 :: byte] < 2 ^ 32"
    by simp
  from create_file_container_two_fields [THEN iffD1, OF hello_record]
  obtain nb where nb: "utf8_encode (str ''hello.txt'') = Inr nb"
    "dump_two_fields id_UTF8String nb id_OctetString [119, 111, 114, 108, 100]
       = Inr [48, 18, 12, 9, 104, 101, 108, 108, 111, 46, 116, 120, 116, 4, 5, 119, 111, 114, 108, 100]"
    by blast
  have "length [48, 18, 12, 9, 104, 101, 108, 108, 111, 46, 116, 120, 116, 4, 5, 119, 111, 114, 108, 100 :: byte] \<le> sys_maxsize"
    by (simp add: sys_maxsize_def)
  from parse_two_fields [OF nb(2) this, of definite_only] utf8_roundtrip [OF nb(1)]
  show ?thesis by (simp add: id_UTF8String_def id_OctetString_def)
qed

lemma hello_received:
  "recvall hello_conn 4 = (Inr [0, 0, 0, 20], hello_conn\<lparr>pending := [[48, 18, 12, 9, 104, 101, 108], [108, 111, 46, 116, 120, 116, 4, 5, 119, 111],
                 [114, 108, 100]]\<rparr>)"
  by (simp add: recvall_def recvall_loop.simps sock_recv_def hello_conn_def)

lemma hello_received2:
  "recvall (hello_conn\<lparr>pending := [[48, 18, 12, 9, 104, 101, 108], [108, 111, 46, 116, 120, 116, 4, 5, 119, 111],
                 [114, 108, 100]]\<rparr>) 20 = (Inr [48, 18, 12, 9, 104, 101, 108, 108, 111, 46, 116, 120, 116, 4, 5, 119, 111, 114, 108, 100], hello_conn\<lparr>pending := []\<rparr>)"
  by (simp add: recvall_def recvall_loop.simps sock_recv_def hello_conn_def)

lemma hello_makedirs:
  "os_makedirs (str ''out/7'') (empty_world\<lparr>clock := 7, trace := t\<rparr>)
   = (Inr (), emit (MadeDirs (str ''out/7''))
        (empty_world\<lparr>clock := 7, trace := t, dirs := {str ''out'', str ''out/7''}\<rparr>))"
  by (simp add: os_makedirs_def ancestors_def str_def slash_def rstrip_slash_def empty_world_def emit_def insert_commute)


lemma hello_paths:
  "os_path_join (str ''out'') (str_of_nat 7) = str ''out/7''"
  "os_path_join (str ''out/7'') (str ''hello.txt'') = str ''out/7/hello.txt''"
  "str ''out/7/hello.txt'' @ str ''.sig'' = str ''out/7/hello.txt.sig''"
  by (simp_all add: os_path_join_def str_of_nat.simps str_def slash_def)

lemma hello_signature:
  "b64encode (sign toy_crypto 5 [119, 111, 114, 108, 100]) = [66, 88, 100, 118, 99, 109, 120, 107]"
  by (simp add: toy_crypto_def byte_of_nat_def b64_char_def)

lemma hello_handled:
  "handle_file_data toy_crypto definite_only hello_conn (str ''out'') 5
     (empty_world\<lparr>clock := 7, trace := t\<rparr>)
   = (Inr (), hello_conn\<lparr>pending := []\<rparr>,
      \<lparr>dirs = {str ''out'', str ''out/7''},
       files = [str ''out/7/hello.txt'' \<mapsto> [119, 111, 114, 108, 100],
                str ''out/7/hello.txt.sig'' \<mapsto> [66, 88, 100, 118, 99, 109, 120, 107]],
       socket_files = {}, denied = {}, clock = 7, seeds = [],
       trace = t @ [MadeDirs (str ''out/7''), WroteFile (str ''out/7/hello.txt''),
                WroteFile (str ''out/7/hello.txt.sig'')]\<rparr>)"
proof -
  have w1: "write_file (str ''out/7/hello.txt'') [119, 111, 114, 108, 100]
          (emit (MadeDirs (str ''out/7''))
             (empty_world\<lparr>clock := 7, trace := t, dirs := {str ''out'', str ''out/7''}\<rparr>))
        = (Inr (), \<lparr>dirs = {str ''out'', str ''out/7''},
       files = [str ''out/7/hello.txt'' \<mapsto> [119, 111, 114, 108, 100]],
       socket_files = {}, denied = {}, clock = 7, seeds = [],
       trace = t @ [MadeDirs (str ''out/7''), WroteFile (str ''out/7/hello.txt'')]\<rparr>)"
    by (simp add: write_file_def parent_error_def os_path_dirname_def rstrip_slash_def is_root_def
        str_def slash_def empty_world_def emit_def)
  have w2: "write_file (str ''out/7/hello.txt.sig'') [66, 88, 100, 118, 99, 109, 120, 107]
          \<lparr>dirs = {str ''out'', str ''out/7''},
       files = [str ''out/7/hello.txt'' \<mapsto> [119, 111, 114, 108, 100]],
       socket_files = {}, denied = {}, clock = 7, seeds = [],
       trace = t @ [MadeDirs (str ''out/7''), WroteFile (str ''out/7/hello.txt'')]\<rparr>
        = (Inr (), \<lparr>dirs = {str ''out'', str ''out/7''},
       files = [str ''out/7/hello.txt'' \<mapsto> [119, 111, 114, 108, 100],
                str ''out/7/hello.txt.sig'' \<mapsto> [66, 88, 100, 118, 99, 109, 120, 107]],
       socket_files = {}, denied = {}, clock = 7, seeds = [],
       trace = t @ [MadeDirs (str ''out/7''), WroteFile (str ''out/7/hello.txt''),
                WroteFile (str ''out/7/hello.txt.sig'')]\<rparr>)"
    by (simp add: write_file_def parent_error_def os_path_dirname_def rstrip_slash_def is_root_def
        str_def slash_def emit_def)
  have c: "clock (empty_world\<lparr>clock := 7, trace := t\<rparr>) = 7" by simp
  show ?thesis
    unfolding handle_file_data_def Let_def c hello_received
    by (simp add: struct_unpack_I_def int_from_bytes_def hello_received2 hello_parses
        hello_paths hello_makedirs hello_signature w1 w2)
qed

theorem signature_file_contents_witness:
  "handle_file_data toy_crypto definite_only hello_conn (str ''out'') 5 (empty_world\<lparr>clock := 7, trace := []\<rparr>)
   = (Inr (), hello_conn\<lparr>pending := []\<rparr>,
      \<lparr>dirs = {str ''out'', str ''out/7''},
       files = [str ''out/7/hello.txt'' \<mapsto> [119, 111, 114, 108, 100],
                str ''out/7/hello.txt.sig'' \<mapsto> [66, 88, 100, 118, 99, 109, 120, 107]],
       socket_files = {}, denied = {}, clock = 7, seeds = [],
       trace = [MadeDirs (str ''out/7''), WroteFile (str ''out/7/hello.txt''),
                WroteFile (str ''out/7/hello.txt.sig'')]\<rparr>)
   \<and> files (snd (snd (handle_file_data toy_crypto definite_only hello_conn (str ''out'') 5
                        (empty_world\<lparr>clock := 7, trace := []\<rparr>))))
        (str ''out/7/hello.txt.sig'')
     = Some (b64encode (sign toy_crypto 5 [119, 111, 114, 108, 100]))
   \<and> b64encode (sign toy_crypto 5 [119, 111, 114, 108, 100])
     = [66, 88, 100, 118, 99, 109, 120, 107]"
proof -
  have t: "concat (pending hello_conn)
      = [0, 0, 0, 20, 48, 18, 12, 9, 104, 101, 108, 108, 111, 46, 116, 120, 116, 4, 5, 119,
         111, 114, 108, 100]"
    by (simp add: hello_conn_def)
  have n: "int_from_bytes (take 4 (concat (pending hello_conn))) = 20"
    by (simp add: t int_from_bytes_def)
  have total: "4 + int_from_bytes (take 4 (concat (pending hello_conn)))
      \<le> length (concat (pending hello_conn))"
    unfolding n by (simp add: t)
  have msg: "parse_file_container definite_only
                (take (int_from_bytes (take 4 (concat (pending hello_conn))))
                   (drop 4 (concat (pending hello_conn))))
             = Inr (str ''hello.txt'', [119, 111, 114, 108, 100])"
    unfolding n by (simp add: t hello_parses)
  have p: "os_path_join (os_path_join (str ''out'') (str_of_nat (clock (empty_world\<lparr>clock := 7, trace := []\<rparr>))))
             (str ''hello.txt'' @ str ''.sig'') = str ''out/7/hello.txt.sig''"
    by (simp add: os_path_join_sig hello_paths)
  from signature_file_contents [OF total msg, of "str ''out''" "empty_world\<lparr>clock := 7, trace := []\<rparr>" toy_crypto 5]
  have "files (snd (snd (handle_file_data toy_crypto definite_only hello_conn (str ''out'') 5
                        (empty_world\<lparr>clock := 7, trace := []\<rparr>))))
        (str ''out/7/hello.txt.sig'')
     = Some (b64encode (sign toy_crypto 5 [119, 111, 114, 108, 100]))"
    unfolding Let_def p
    by (simp only: hello_handled [of "[]"] prod.case sum.case snd_conv append_Nil)
  with hello_handled [of "[]"] hello_signature show ?thesis by simp
qed

section \<open>Isolation of connections\<close>

text \<open>
  The library's parser raises exceptions that derive from \<^verbatim>\<open>Exception\<close>, in the parts
  of it that are a parameter too.
\<close>

definition raises_only_exceptions :: "ber_forms \<Rightarrow> bool" where
  "raises_only_exceptions ber =
     ((\<forall>bs e. other_header ber bs = Inl e \<longrightarrow> is_Exception e)
      \<and> (\<forall>t bs e. merge_chunks ber t bs = Inl e \<longrightarrow> is_Exception e))"

text \<open>The events of the file system and of key generation.\<close>

fun file_event :: "event \<Rightarrow> bool" where
  "file_event (RemovedFile p) = True"
| "file_event (ReadFile p) = True"
| "file_event (WroteFile p) = True"
| "file_event (MadeDirs p) = True"
| "file_event GeneratedKey = True"
| "file_event ev = False"

lemma asn1_parse_exception:
  "raises_only_exceptions ber \<Longrightarrow> asn1_parse ber bs = Inl e \<Longrightarrow> is_Exception e"
  by (auto simp: asn1_parse_def raises_only_exceptions_def Let_def is_Exception_def
      split: list.splits if_splits)

lemma parse_children_exception:
  "raises_only_exceptions ber \<Longrightarrow> parse_children ber bs = Inl e \<Longrightarrow> is_Exception e"
proof (induction ber bs rule: parse_children.induct)
  case (1 lib bs)
  show ?case
  proof (cases "bs = []")
    case True
    with 1(3) show ?thesis by (simp add: parse_children.simps)
  next
    case False
    show ?thesis
    proof (cases "asn1_parse lib bs")
      case (Inl e')
      with False 1(3) have "e' = e" by (subst (asm) parse_children.simps) simp
      with Inl asn1_parse_exception [OF 1(2)] show ?thesis by blast
    next
      case (Inr p)
      obtain v rest where p: "p = (v, rest)" by (cases p)
      show ?thesis
      proof (cases "length rest < length bs")
        case True
        with False Inr p 1(3) have "parse_children lib rest = Inl e"
          by (subst (asm) parse_children.simps) (auto split: sum.splits)
        with 1(1) [OF False Inr [unfolded p] refl True 1(2)] show ?thesis by simp
      next
        case c: False
        with False Inr p 1(3) have "e = ValueError"
          by (subst (asm) parse_children.simps) simp
        then show ?thesis by (simp add: is_Exception_def)
      qed
    qed
  qed
qed

lemma utf8_decode_exception: "utf8_decode bs = Inl e \<Longrightarrow> is_Exception e"
  by (auto dest: utf8_decode_error simp: is_Exception_def)

lemma parse_file_container_exception:
  assumes "raises_only_exceptions ber" "parse_file_container ber bs = Inl e"
  shows "is_Exception e"
proof -
  have m: "\<And>t c e. merge_chunks ber t c = Inl e \<Longrightarrow> is_Exception e"
    using assms(1) by (auto simp: raises_only_exceptions_def)
  have v: "is_Exception ValueError" by (simp add: is_Exception_def)
  from assms(2) show ?thesis
    unfolding parse_file_container_def FileContainer_load_def build_string_def string_bytes_def
    by (auto split: sum.splits if_splits prod.splits
        dest: asn1_parse_exception [OF assms(1)] parse_children_exception [OF assms(1)]
          utf8_decode_exception m simp: v)
qed


lemma recvall_error: "recvall conn count = (Inl e, conn') \<Longrightarrow> e = RuntimeError"
proof (cases "count \<le> length (concat (pending conn))")
  case True
  from recvall_enough [OF True] show "recvall conn count = (Inl e, conn') \<Longrightarrow> e = RuntimeError"
    by auto
next
  case False
  then have "length (concat (pending conn)) < count" by simp
  from recvall_short [OF this] show "recvall conn count = (Inl e, conn') \<Longrightarrow> e = RuntimeError"
    by auto
qed

text \<open>A step whose only trace is file events.\<close>

definition file_effects :: "world \<Rightarrow> world \<Rightarrow> bool" where
  "file_effects w w' = (\<exists>evs. trace w' = trace w @ evs \<and> list_all file_event evs)"

lemma file_effects_refl [simp]: "file_effects w w"
  by (simp add: file_effects_def)

lemma file_effects_trans: "file_effects w w1 \<Longrightarrow> file_effects w1 w2 \<Longrightarrow> file_effects w w2"
  by (auto simp: file_effects_def)

lemma write_file_effects:
  "write_file p d w = (r, w') \<Longrightarrow> file_effects w w' \<and> (\<forall>e. r = Inl e \<longrightarrow> is_Exception e)"
  by (drule write_file_cases) (auto simp: file_effects_def)

lemma os_makedirs_effects:
  "os_makedirs p w = (r, w') \<Longrightarrow> file_effects w w' \<and> (\<forall>e. r = Inl e \<longrightarrow> is_Exception e)"
  by (drule os_makedirs_cases) (auto simp: file_effects_def)

lemma read_file_effects:
  "read_file p w = (r, w') \<Longrightarrow> file_effects w w' \<and> (\<forall>e. r = Inl e \<longrightarrow> is_Exception e)"
  by (drule read_file_cases) (auto simp: file_effects_def)

lemma os_remove_effects:
  "os_remove p w = (r, w') \<Longrightarrow> file_effects w w' \<and> (\<forall>e. r = Inl e \<longrightarrow> is_Exception e)"
  by (drule os_remove_cases) (auto simp: file_effects_def)

lemma handle_file_data_effects:
  assumes h: "handle_file_data lib ber conn out key w = (r, c', w')"
  shows "file_effects w w'
         \<and> (raises_only_exceptions ber \<longrightarrow> (\<forall>e. r = Inl e \<longrightarrow> is_Exception e))"
proof -
  have ex: "is_Exception RuntimeError" "is_Exception StructError" by (simp_all add: is_Exception_def)
  obtain r1 c1 where a: "recvall conn 4 = (r1, c1)" by (cases "recvall conn 4")
  show ?thesis
  proof (cases r1)
    case (Inl e)
    with a h recvall_error [of conn 4 e c1] ex show ?thesis
      by (auto simp: handle_file_data_def)
  next
    case lb: (Inr length_bytes)
    show ?thesis
    proof (cases "struct_unpack_I length_bytes")
      case (Inl e)
      then have "e = StructError" by (auto simp: struct_unpack_I_def split: if_splits)
      with a lb Inl h ex show ?thesis by (auto simp: handle_file_data_def)
    next
      case n: (Inr total_length)
      obtain r2 c2 where b: "recvall c1 total_length = (r2, c2)"
        by (cases "recvall c1 total_length")
      show ?thesis
      proof (cases r2)
        case (Inl e)
        with a lb n b h recvall_error [of c1 total_length e c2] ex show ?thesis
          by (auto simp: handle_file_data_def)
      next
        case d: (Inr der_data)
        show ?thesis
        proof (cases "parse_file_container ber der_data")
          case (Inl e)
          with a lb n b d h parse_file_container_exception [of ber der_data e] show ?thesis
            by (auto simp: handle_file_data_def)
        next
          case (Inr fd)
          obtain filename file_data where fd: "fd = (filename, file_data)" by (cases fd)
          define od where "od = os_path_join out (str_of_nat (clock w))"
          define fp where "fp = os_path_join od filename"
          obtain q1 w1 where m: "os_makedirs od w = (q1, w1)" by (cases "os_makedirs od w")
          obtain q2 w2 where f: "write_file fp file_data w1 = (q2, w2)"
            by (cases "write_file fp file_data w1")
          obtain q3 w3 where g: "write_file (fp @ str ''.sig'') (b64encode (sign lib key file_data)) w2
              = (q3, w3)"
            by (cases "write_file (fp @ str ''.sig'') (b64encode (sign lib key file_data)) w2")
          have hh: "(r, c', w') =
             (case q1 of Inl e \<Rightarrow> (Inl e, c2, w1) | Inr u \<Rightarrow>
              (case q2 of Inl e \<Rightarrow> (Inl e, c2, w2) | Inr u \<Rightarrow>
               (case q3 of Inl e \<Rightarrow> (Inl e, c2, w3) | Inr u \<Rightarrow> (Inr (), c2, w3))))"
            using a lb n b d Inr fd m f g h [symmetric]
            by (simp add: handle_file_data_def Let_def od_def [symmetric] fp_def [symmetric]
                split: sum.splits)
          note e1 = os_makedirs_effects [OF m] and e2 = write_file_effects [OF f]
            and e3 = write_file_effects [OF g]
          have t2: "file_effects w w2" using e1 e2 by (blast intro: file_effects_trans)
          have t3: "file_effects w w3" using t2 e3 by (blast intro: file_effects_trans)
          from hh e1 e2 e3 t2 t3 show ?thesis
            by (auto split: sum.splits)
        qed
      qed
    qed
  qed
qed


lemma handle_connection_effects:
  assumes h: "handle_connection lib ber conn out key w = (r, c', w')"
  shows "closed c'
     \<and> (\<exists>fe lg. trace w' = trace w @ fe @ lg @ [ClosedConnection] \<and> list_all file_event fe
           \<and> (lg = [] \<or> (\<exists>e. lg = [LoggedProtocolError e]) \<or> (\<exists>e. lg = [LoggedUnexpectedError e])))
     \<and> (\<forall>e. r = Inl e \<longrightarrow> \<not> is_Exception e)
     \<and> (raises_only_exceptions ber \<longrightarrow> r = Inr ())"
proof -
  obtain r0 c0 w0 where d: "handle_file_data lib ber conn out key w = (r0, c0, w0)"
    by (cases "handle_file_data lib ber conn out key w")
  from handle_file_data_effects [OF d] obtain fe where
    fe: "trace w0 = trace w @ fe" "list_all file_event fe"
    and ex: "raises_only_exceptions ber \<longrightarrow> (\<forall>e. r0 = Inl e \<longrightarrow> is_Exception e)"
    by (auto simp: file_effects_def)
  have "\<exists>lg. closed c' \<and> trace w' = trace w0 @ lg @ [ClosedConnection]
      \<and> (lg = [] \<or> (\<exists>e. lg = [LoggedProtocolError e]) \<or> (\<exists>e. lg = [LoggedUnexpectedError e]))
      \<and> (\<forall>e. r = Inl e \<longrightarrow> \<not> is_Exception e)
      \<and> (raises_only_exceptions ber \<longrightarrow> r = Inr ())"
  proof (cases r0)
    case (Inr u)
    with d h have "closed c'" "trace w' = trace w0 @ [] @ [ClosedConnection]" "r = Inr ()"
      by (auto simp: handle_connection_def close_connection_def)
    then show ?thesis by blast
  next
    case (Inl e)
    show ?thesis
    proof (cases "e = AttestationDaemonError")
      case True
      with Inl d h have "closed c'"
        "trace w' = trace w0 @ [LoggedProtocolError e] @ [ClosedConnection]" "r = Inr ()"
        by (auto simp: handle_connection_def close_connection_def)
      then show ?thesis by blast
    next
      case False
      show ?thesis
      proof (cases "is_Exception e")
        case True
        with False Inl d h have "closed c'"
          "trace w' = trace w0 @ [LoggedUnexpectedError e] @ [ClosedConnection]" "r = Inr ()"
          by (auto simp: handle_connection_def close_connection_def)
        then show ?thesis by blast
      next
        case ne: False
        with False Inl d h have "closed c'" "trace w' = trace w0 @ [] @ [ClosedConnection]"
          "r = Inl e"
          by (auto simp: handle_connection_def close_connection_def)
        moreover from ne Inl ex have "\<not> raises_only_exceptions ber" by auto
        ultimately show ?thesis using ne by blast
      qed
    qed
  qed
  then obtain lg where "closed c'" "trace w' = trace w0 @ lg @ [ClosedConnection]"
      "lg = [] \<or> (\<exists>e. lg = [LoggedProtocolError e]) \<or> (\<exists>e. lg = [LoggedUnexpectedError e])"
      "\<forall>e. r = Inl e \<longrightarrow> \<not> is_Exception e" "raises_only_exceptions ber \<longrightarrow> r = Inr ()"
    by blast
  with fe show ?thesis by auto
qed

lemma count_file_events:
  "list_all file_event fe \<Longrightarrow>
     filter (\<lambda>ev. ev = Accepted) fe = [] \<and> filter (\<lambda>ev. ev = ClosedConnection) fe = []"
  by (induction fe) auto

lemma accept_loop_trace:
  assumes "raises_only_exceptions ber"
  shows "\<exists>w' evs. accept_loop lib ber out key conns w = (KeyboardInterrupt, w')
      \<and> trace w' = trace w @ evs
      \<and> length (filter (\<lambda>ev. ev = Accepted) evs) = length conns
      \<and> length (filter (\<lambda>ev. ev = ClosedConnection) evs) = length conns"
proof (induction conns arbitrary: w)
  case Nil
  show ?case by simp
next
  case (Cons conn conns)
  let ?w0 = "emit Accepted (w\<lparr>clock := arrival conn\<rparr>)"
  obtain r c1 w1 where h: "handle_connection lib ber conn out key ?w0 = (r, c1, w1)"
    by (cases "handle_connection lib ber conn out key ?w0")
  from handle_connection_effects [OF h] assms obtain fe lg where
    r: "r = Inr ()" and t: "trace w1 = trace ?w0 @ fe @ lg @ [ClosedConnection]"
    and fe: "list_all file_event fe"
    and lg: "lg = [] \<or> (\<exists>e. lg = [LoggedProtocolError e]) \<or> (\<exists>e. lg = [LoggedUnexpectedError e])"
    by blast
  from Cons.IH [of w1] obtain w' evs where
    w': "accept_loop lib ber out key conns w1 = (KeyboardInterrupt, w')"
        "trace w' = trace w1 @ evs"
        "length (filter (\<lambda>ev. ev = Accepted) evs) = length conns"
        "length (filter (\<lambda>ev. ev = ClosedConnection) evs) = length conns"
    by blast
  have t1: "trace w' = trace w @ (Accepted # fe @ lg @ [ClosedConnection] @ evs)"
    using t w'(2) by (simp add: emit_def)
  have a: "accept_loop lib ber out key (conn # conns) w = (KeyboardInterrupt, w')"
    using h r w'(1) by simp
  have c1: "length (filter (\<lambda>ev. ev = Accepted) (Accepted # fe @ lg @ [ClosedConnection] @ evs))
      = length (conn # conns)"
    using count_file_events [OF fe] lg w'(3) by auto
  have c2: "length (filter (\<lambda>ev. ev = ClosedConnection)
                 (Accepted # fe @ lg @ [ClosedConnection] @ evs))
      = length (conn # conns)"
    using count_file_events [OF fe] lg w'(4) by auto
  from a t1 c1 c2 show ?case by blast
qed

lemma new_events_append: "trace w' = trace w @ evs \<Longrightarrow> new_events w w' = evs"
  by (simp add: new_events_def)


lemma handle_connection_truncated:
  assumes "length (concat (pending conn)) < 4
      \<or> length (concat (pending conn)) < 4 + int_from_bytes (take 4 (concat (pending conn)))"
  shows "\<exists>conn'. handle_connection lib ber conn out key w
           = (Inr (), conn', emit ClosedConnection (emit (LoggedUnexpectedError RuntimeError) w))
         \<and> closed conn'"
proof -
  have "\<exists>c1. handle_file_data lib ber conn out key w = (Inl RuntimeError, c1, w)"
  proof (cases "length (concat (pending conn)) < 4")
    case True
    then show ?thesis by (rule handle_file_data_short_prefix)
  next
    case False
    with assms show ?thesis by (intro handle_file_data_short_record) simp_all
  qed
  then obtain c1 where "handle_file_data lib ber conn out key w = (Inl RuntimeError, c1, w)" ..
  then show ?thesis
    by (simp add: handle_connection_def close_connection_def is_Exception_def)
qed

text \<open>
  Claim C4. \<open>handle_connection\<close> closes the connection whatever happens, and every
  exception that derives from \<^verbatim>\<open>Exception\<close> ends there: what it lets through is no
  \<^verbatim>\<open>Exception\<close>, and with a parser that raises only such exceptions it always
  returns normally. So the accept loop ends with the interrupt alone, after it has
  accepted and closed every connection that arrived. A connection that is closed
  before the prefix or the declared record is complete changes nothing in the world
  but the log, and the loop goes on with the connections after it from that world.
  Interrupts are taken to arrive while the loop waits in \<^verbatim>\<open>accept\<close>.
\<close>

theorem connection_errors_are_isolated:
  "(\<exists>r conn' w'. handle_connection lib ber conn out key w = (r, conn', w') \<and> closed conn'
       \<and> (\<forall>e. r = Inl e \<longrightarrow> \<not> is_Exception e)
       \<and> (raises_only_exceptions ber \<longrightarrow> r = Inr ()))
   \<and> (raises_only_exceptions ber \<longrightarrow>
        (\<exists>w'. accept_loop lib ber out key conns w = (KeyboardInterrupt, w')
           \<and> length (filter (\<lambda>ev. ev = Accepted) (new_events w w')) = length conns
           \<and> length (filter (\<lambda>ev. ev = ClosedConnection) (new_events w w')) = length conns))
   \<and> (length (concat (pending conn)) < 4
        \<or> length (concat (pending conn)) < 4 + int_from_bytes (take 4 (concat (pending conn)))
      \<longrightarrow> (\<exists>conn'. handle_connection lib ber conn out key w
                = (Inr (), conn',
                   emit ClosedConnection (emit (LoggedUnexpectedError RuntimeError) w))
              \<and> closed conn')
          \<and> accept_loop lib ber out key (conn # conns) w
            = accept_loop lib ber out key conns
                (emit ClosedConnection (emit (LoggedUnexpectedError RuntimeError)
                   (emit Accepted (w\<lparr>clock := arrival conn\<rparr>)))))"
proof (intro conjI impI)
  obtain r c' w' where h: "handle_connection lib ber conn out key w = (r, c', w')"
    by (cases "handle_connection lib ber conn out key w")
  from handle_connection_effects [OF h] h
  show "\<exists>r conn' w'. handle_connection lib ber conn out key w = (r, conn', w') \<and> closed conn'
       \<and> (\<forall>e. r = Inl e \<longrightarrow> \<not> is_Exception e)
       \<and> (raises_only_exceptions ber \<longrightarrow> r = Inr ())"
    by blast
next
  assume "raises_only_exceptions ber"
  from accept_loop_trace [OF this, of lib out key conns w] obtain w' evs where
    "accept_loop lib ber out key conns w = (KeyboardInterrupt, w')" "trace w' = trace w @ evs"
    "length (filter (\<lambda>ev. ev = Accepted) evs) = length conns"
    "length (filter (\<lambda>ev. ev = ClosedConnection) evs) = length conns"
    by blast
  then show "\<exists>w'. accept_loop lib ber out key conns w = (KeyboardInterrupt, w')
           \<and> length (filter (\<lambda>ev. ev = Accepted) (new_events w w')) = length conns
           \<and> length (filter (\<lambda>ev. ev = ClosedConnection) (new_events w w')) = length conns"
    using new_events_append by blast
next
  assume a: "length (concat (pending conn)) < 4
        \<or> length (concat (pending conn)) < 4 + int_from_bytes (take 4 (concat (pending conn)))"
  then show "\<exists>conn'. handle_connection lib ber conn out key w
                = (Inr (), conn',
                   emit ClosedConnection (emit (LoggedUnexpectedError RuntimeError) w))
              \<and> closed conn'"
    by (rule handle_connection_truncated)
  from handle_connection_truncated [OF a, of lib ber out key "emit Accepted (w\<lparr>clock := arrival conn\<rparr>)"]
  show "accept_loop lib ber out key (conn # conns) w
            = accept_loop lib ber out key conns
                (emit ClosedConnection (emit (LoggedUnexpectedError RuntimeError)
                   (emit Accepted (w\<lparr>clock := arrival conn\<rparr>))))"
    by auto
qed

lemma definite_only_exceptions: "raises_only_exceptions definite_only"
  by (simp add: raises_only_exceptions_def definite_only_def is_Exception_def)

theorem connection_errors_are_isolated_witness:
  "raises_only_exceptions definite_only
   \<and> length (concat (pending truncated_conn))
       < 4 + int_from_bytes (take 4 (concat (pending truncated_conn)))
   \<and> accept_loop toy_crypto definite_only (str ''out'') 5 [truncated_conn, hello_conn] empty_world
     = (KeyboardInterrupt,
        \<lparr>dirs = {str ''out'', str ''out/7''},
         files = [str ''out/7/hello.txt'' \<mapsto> [119, 111, 114, 108, 100],
                  str ''out/7/hello.txt.sig'' \<mapsto> [66, 88, 100, 118, 99, 109, 120, 107]],
         socket_files = {}, denied = {}, clock = 7, seeds = [],
         trace = [Accepted, LoggedUnexpectedError RuntimeError, ClosedConnection,
                  Accepted, MadeDirs (str ''out/7''), WroteFile (str ''out/7/hello.txt''),
                  WroteFile (str ''out/7/hello.txt.sig''), ClosedConnection]\<rparr>)"
proof -
  have t: "length (concat (pending truncated_conn))
       < 4 + int_from_bytes (take 4 (concat (pending truncated_conn)))"
    by (simp add: truncated_conn_def int_from_bytes_def)
  then have 0: "length (concat (pending truncated_conn)) < 4
        \<or> length (concat (pending truncated_conn))
            < 4 + int_from_bytes (take 4 (concat (pending truncated_conn)))" ..
  note T = connection_errors_are_isolated [where conn = truncated_conn and conns = "[hello_conn]"
      and lib = toy_crypto and ber = definite_only and out = "str ''out''" and key = 5
      and w = empty_world, THEN conjunct2, THEN conjunct2, THEN mp, OF 0, THEN conjunct2]
  have a: "arrival truncated_conn = 7" "arrival hello_conn = 7"
    by (simp_all add: truncated_conn_def hello_conn_def)
  note H = hello_handled [of "[Accepted, LoggedUnexpectedError RuntimeError, ClosedConnection, Accepted]",
      unfolded empty_world_def, simplified]
  have "accept_loop toy_crypto definite_only (str ''out'') 5 [truncated_conn, hello_conn] empty_world
     = (KeyboardInterrupt,
        \<lparr>dirs = {str ''out'', str ''out/7''},
         files = [str ''out/7/hello.txt'' \<mapsto> [119, 111, 114, 108, 100],
                  str ''out/7/hello.txt.sig'' \<mapsto> [66, 88, 100, 118, 99, 109, 120, 107]],
         socket_files = {}, denied = {}, clock = 7, seeds = [],
         trace = [Accepted, LoggedUnexpectedError RuntimeError, ClosedConnection,
                  Accepted, MadeDirs (str ''out/7''), WroteFile (str ''out/7/hello.txt''),
                  WroteFile (str ''out/7/hello.txt.sig''), ClosedConnection]\<rparr>)"
    unfolding T
    by (simp add: a emit_def empty_world_def handle_connection_def close_connection_def H)
  with t definite_only_exceptions show ?thesis by blast
qed

section \<open>Start of the daemon\<close>

text \<open>
  The path at which \<open>save_public_key\<close> writes when its directory is
  \<open>OUTPUT_BASE_DIR\<close>.
\<close>

definition PUBLIC_KEY_PATH :: path where
  "PUBLIC_KEY_PATH = os_path_join OUTPUT_BASE_DIR (str ''signing_key.pub.pem'')"

lemma key_path_facts:
  "SIGNING_KEY_PATH \<noteq> []" "0 \<notin> set SIGNING_KEY_PATH" "last SIGNING_KEY_PATH \<noteq> slash"
  "os_path_dirname SIGNING_KEY_PATH = str ''/var/lib/pcr_attestation_keys''"
  by (simp_all add: SIGNING_KEY_PATH_def str_def slash_def os_path_dirname_def rstrip_slash_def)

lemma key_dir_facts:
  "str ''/var/lib/pcr_attestation_keys'' \<noteq> []" "\<not> is_root (str ''/var/lib/pcr_attestation_keys'')"
  by (simp_all add: str_def is_root_def rstrip_slash_def slash_def)

lemma output_dir_facts:
  "OUTPUT_BASE_DIR \<noteq> []" "OUTPUT_BASE_DIR \<in> set (ancestors OUTPUT_BASE_DIR)"
  "PUBLIC_KEY_PATH \<notin> set (ancestors OUTPUT_BASE_DIR)"
  by (simp_all add: PUBLIC_KEY_PATH_def OUTPUT_BASE_DIR_def ancestors_def
      str_def slash_def rstrip_slash_def os_path_join_def)

lemma public_key_path_facts:
  "PUBLIC_KEY_PATH \<noteq> []" "0 \<notin> set PUBLIC_KEY_PATH" "last PUBLIC_KEY_PATH \<noteq> slash"
  "os_path_dirname PUBLIC_KEY_PATH = OUTPUT_BASE_DIR" "PUBLIC_KEY_PATH \<noteq> SIGNING_KEY_PATH"
  by (simp_all add: PUBLIC_KEY_PATH_def OUTPUT_BASE_DIR_def SIGNING_KEY_PATH_def
      str_def slash_def os_path_dirname_def rstrip_slash_def os_path_join_def)

lemma write_key_no_parent:
  assumes "\<not> os_path_exists SIGNING_KEY_PATH w"
    and "\<not> os_path_exists (str ''/var/lib/pcr_attestation_keys'') w"
  shows "write_file SIGNING_KEY_PATH d w = (Inl FileNotFoundError, w)"
  using assms key_path_facts key_dir_facts
  by (simp add: write_file_def parent_error_def os_path_exists_def Let_def)

lemma get_signing_key_no_parent:
  assumes "\<not> os_path_exists SIGNING_KEY_PATH w"
    and "\<not> os_path_exists (str ''/var/lib/pcr_attestation_keys'') w"
  shows "get_signing_key lib SIGNING_KEY_PATH w
         = (Inl FileNotFoundError, emit GeneratedKey (w\<lparr>seeds := tl (seeds w)\<rparr>))"
proof -
  let ?w1 = "emit GeneratedKey (w\<lparr>seeds := tl (seeds w)\<rparr>)"
  have "\<not> os_path_exists SIGNING_KEY_PATH ?w1"
    "\<not> os_path_exists (str ''/var/lib/pcr_attestation_keys'') ?w1"
    using assms by (simp_all add: os_path_exists_def emit_def)
  from write_key_no_parent [OF this] assms(1) show ?thesis
    by (simp add: get_signing_key_def generate_key_def save_private_key_def)
qed

lemma get_signing_key_effects:
  "get_signing_key lib p w = (r, w') \<Longrightarrow> file_effects w w'"
proof -
  assume g: "get_signing_key lib p w = (r, w')"
  show ?thesis
  proof (cases "os_path_exists p w")
    case True
    obtain q w1 where rd: "read_file p w = (q, w1)" by (cases "read_file p w")
    from read_file_effects [OF rd] have "file_effects w w1" by simp
    moreover from g True rd have "w' = w1"
      by (auto simp: get_signing_key_def split: sum.splits loaded_key.splits if_splits)
    ultimately show ?thesis by simp
  next
    case False
    define k where "k = generate lib (case seeds w of [] \<Rightarrow> 0 | s # ss \<Rightarrow> s)"
    let ?w1 = "emit GeneratedKey (w\<lparr>seeds := tl (seeds w)\<rparr>)"
    have gk: "generate_key lib w = (k, ?w1)" by (simp add: generate_key_def k_def)
    have e1: "file_effects w ?w1" by (simp add: file_effects_def emit_def)
    obtain q2 w2 where s: "write_file p (private_bytes lib k) ?w1 = (q2, w2)"
      by (cases "write_file p (private_bytes lib k) ?w1")
    note e2 = write_file_effects [OF s, THEN conjunct1]
    obtain q3 w3 where m: "os_makedirs OUTPUT_BASE_DIR w2 = (q3, w3)"
      by (cases "os_makedirs OUTPUT_BASE_DIR w2")
    note e3 = os_makedirs_effects [OF m, THEN conjunct1]
    obtain q4 w4 where pw: "write_file (os_path_join OUTPUT_BASE_DIR (str ''signing_key.pub.pem''))
            (public_bytes lib (public_key lib k)) w3 = (q4, w4)"
      by (cases "write_file (os_path_join OUTPUT_BASE_DIR (str ''signing_key.pub.pem''))
            (public_bytes lib (public_key lib k)) w3")
    note e4 = write_file_effects [OF pw, THEN conjunct1]
    have t2: "file_effects w w2" using e1 e2 by (rule file_effects_trans)
    have t3: "file_effects w w3" using t2 e3 by (rule file_effects_trans)
    have t4: "file_effects w w4" using t3 e4 by (rule file_effects_trans)
    from g False s m pw have "w' = w2 \<or> w' = w3 \<or> w' = w4"
      by (auto simp: get_signing_key_def gk save_private_key_def save_public_key_def
          split: sum.splits)
    with t2 t3 t4 show ?thesis by blast
  qed
qed


lemma get_signing_key_bad:
  assumes ex: "os_path_exists p w"
    and bad: "\<forall>pem k. files w p = Some pem \<longrightarrow> load_pem_private_key lib pem \<noteq> Inr (Ed25519PrivateKey k)"
  shows "\<exists>e. get_signing_key lib p w = (Inl e, w)
           \<or> get_signing_key lib p w = (Inl e, emit (ReadFile p) w)"
proof -
  obtain q w1 where rd: "read_file p w = (q, w1)" by (cases "read_file p w")
  from read_file_cases [OF rd] show ?thesis
  proof (elim disjE exE conjE)
    fix e assume "q = Inl e" "w1 = w"
    with ex rd show ?thesis by (auto simp: get_signing_key_def)
  next
    fix d assume d: "q = Inr d" "files w p = Some d" "w1 = emit (ReadFile p) w"
    with bad have "\<forall>k. load_pem_private_key lib d \<noteq> Inr (Ed25519PrivateKey k)" by simp
    with ex rd d show ?thesis
      by (auto simp: get_signing_key_def split: sum.splits loaded_key.splits)
  qed
qed

lemma get_signing_key_rejected:
  assumes "files w p = Some pem" "p \<notin> dirs w" "p \<notin> denied w"
    and "load_pem_private_key lib pem = Inr OtherPrivateKey
         \<or> (\<exists>e. load_pem_private_key lib pem = Inl e \<and> (is_ValueError e \<or> e = InvalidKey))"
  shows "get_signing_key lib p w = (Inl AttestationDaemonError, emit (ReadFile p) w)"
proof -
  from assms(1) have "os_path_exists p w" by (auto simp: os_path_exists_def)
  moreover from assms(1-3) have "read_file p w = (Inr pem, emit (ReadFile p) w)"
    by (simp add: read_file_def)
  ultimately show ?thesis using assms(4)
    by (auto simp: get_signing_key_def)
qed

text \<open>The first step of \<open>run_server\<close>: the removal of a stale socket file.\<close>

definition remove_stale :: "path \<Rightarrow> world \<Rightarrow> (exn + unit) \<times> world" where
  "remove_stale socket_path w =
     (if os_path_exists socket_path w then os_remove socket_path w else (Inr (), w))"

text \<open>The events of that step.\<close>

definition stale_events :: "path \<Rightarrow> world \<Rightarrow> event list" where
  "stale_events socket_path w =
     (if os_path_exists socket_path w then [RemovedFile socket_path] else [])"

lemma remove_stale_cases:
  assumes "remove_stale sp w = (r, w1)"
  shows "(\<exists>e. r = Inl e \<and> w1 = w)
       \<or> (r = Inr () \<and> trace w1 = trace w @ stale_events sp w \<and> dirs w1 = dirs w
           \<and> denied w1 = denied w
           \<and> (\<forall>p. os_path_exists p w1 \<longrightarrow> os_path_exists p w)
           \<and> (\<forall>p. p \<noteq> sp \<longrightarrow> files w1 p = files w p \<and> os_path_exists p w1 = os_path_exists p w))"
proof (cases "os_path_exists sp w")
  case False
  with assms show ?thesis by (simp add: remove_stale_def stale_events_def)
next
  case True
  with assms have "os_remove sp w = (r, w1)" by (simp add: remove_stale_def)
  from os_remove_cases [OF this] True show ?thesis
    by (auto simp: stale_events_def os_path_exists_def emit_def split: if_splits)
qed

lemma accept_loop_extends:
  "accept_loop lib ber out key conns w = (e, w') \<Longrightarrow> \<exists>evs. trace w' = trace w @ evs"
proof (induction conns arbitrary: w)
  case Nil
  then show ?case by simp
next
  case (Cons conn conns)
  let ?w0 = "emit Accepted (w\<lparr>clock := arrival conn\<rparr>)"
  obtain r c1 w1 where h: "handle_connection lib ber conn out key ?w0 = (r, c1, w1)"
    by (cases "handle_connection lib ber conn out key ?w0")
  from handle_connection_effects [OF h] obtain evs1 where t: "trace w1 = trace ?w0 @ evs1"
    by blast
  then have t1: "trace w1 = trace w @ Accepted # evs1" by (simp add: emit_def)
  show ?case
  proof (cases r)
    case (Inl e')
    with h Cons.prems have "w' = w1" by simp
    with t1 show ?thesis by blast
  next
    case (Inr u)
    with h Cons.prems have "accept_loop lib ber out key conns w1 = (e, w')" by simp
    from Cons.IH [OF this] obtain evs where "trace w' = trace w1 @ evs" ..
    with t1 show ?thesis by simp
  qed
qed

lemma run_server_cases:
  assumes run: "run_server lib ber sp out incoming w = (r, w')"
  shows "(\<exists>e. r = Inl e \<and> w' = w \<and> remove_stale sp w = (Inl e, w))
     \<or> (\<exists>w1. remove_stale sp w = (Inr (), w1)
          \<and> ((\<exists>e. r = Inl e \<and> get_signing_key lib SIGNING_KEY_PATH w1 = (Inl e, w'))
             \<or> (\<exists>k w2. get_signing_key lib SIGNING_KEY_PATH w1 = (Inr k, w2)
                  \<and> ((\<exists>e. r = Inl e \<and> w' = w2 \<and> sock_bind sp w2 = (Inl e, w2))
                     \<or> (\<exists>rest. trace w' = trace w2 @ [Bound sp, Listening] @ rest)))))"
proof -
  obtain r0 w1 where a: "remove_stale sp w = (r0, w1)" by (cases "remove_stale sp w")
  note run' = run [unfolded run_server_def, folded remove_stale_def, unfolded a]
  show ?thesis
  proof (cases r0)
    case (Inl e)
    with remove_stale_cases [OF a] have "w1 = w" by auto
    with Inl run' a show ?thesis by auto
  next
    case r0: (Inr u)
    obtain rk w2 where g: "get_signing_key lib SIGNING_KEY_PATH w1 = (rk, w2)"
      by (cases "get_signing_key lib SIGNING_KEY_PATH w1")
    show ?thesis
    proof (cases rk)
      case (Inl e)
      with r0 run' g a show ?thesis by auto
    next
      case k: (Inr key)
      obtain rb w3 where b: "sock_bind sp w2 = (rb, w3)" by (cases "sock_bind sp w2")
      from sock_bind_cases [OF b] show ?thesis
      proof (elim disjE exE conjE)
        fix e assume "rb = Inl e" "is_Exception e" "w3 = w2"
        with r0 k run' g a b show ?thesis by auto
      next
        assume rb: "rb = Inr ()"
          and w3: "w3 = emit (Bound sp) (w2\<lparr>socket_files := insert sp (socket_files w2)\<rparr>)"
        obtain e w4 where l: "accept_loop lib ber out key incoming (emit Listening w3) = (e, w4)"
          by (cases "accept_loop lib ber out key incoming (emit Listening w3)")
        from accept_loop_extends [OF l] obtain evs where
          t4: "trace w4 = trace w2 @ [Bound sp, Listening] @ evs"
          using w3 by (auto simp: emit_def)
        let ?w5 = "emit ClosedServer w4"
        have "\<exists>rest. trace w' = trace w2 @ [Bound sp, Listening] @ rest"
        proof (cases "os_path_exists sp ?w5")
          case False
          with r0 k rb run' g b l have "w' = ?w5" by (auto simp: Let_def)
          with t4 show ?thesis by (simp add: emit_def)
        next
          case True
          obtain rr w6 where rm: "os_remove sp ?w5 = (rr, w6)" by (cases "os_remove sp ?w5")
          from os_remove_effects [OF rm] obtain evs6 where "trace w6 = trace ?w5 @ evs6"
            by (auto simp: file_effects_def)
          with t4 have "trace w6 = trace w2 @ [Bound sp, Listening] @ (evs @ ClosedServer # evs6)"
            by (simp add: emit_def)
          moreover from True r0 k rb run' g b l rm have "w' = w6"
            by (auto simp: Let_def split: sum.splits)
          ultimately show ?thesis by blast
        qed
        with r0 k g a show ?thesis by auto
      qed
    qed
  qed
qed

lemma file_effects_new_events: "file_effects w w' \<Longrightarrow> list_all file_event (new_events w w')"
  by (auto simp: file_effects_def new_events_def)

lemma stale_events_file: "list_all file_event (stale_events sp w)"
  by (simp add: stale_events_def)

lemma run_server_key_failure:
  assumes f: "\<And>w1. remove_stale sp w = (Inr (), w1)
               \<Longrightarrow> \<exists>e w2. get_signing_key lib SIGNING_KEY_PATH w1 = (Inl e, w2)"
  shows "\<exists>e w'. run_server lib ber sp out incoming w = (Inl e, w')
           \<and> list_all file_event (new_events w w')
           \<and> (remove_stale sp w = (Inl e, w)
               \<or> (\<exists>w1. remove_stale sp w = (Inr (), w1)
                      \<and> get_signing_key lib SIGNING_KEY_PATH w1 = (Inl e, w')))"
proof -
  obtain r w' where run: "run_server lib ber sp out incoming w = (r, w')"
    by (cases "run_server lib ber sp out incoming w")
  from run_server_cases [OF run] show ?thesis
  proof (elim disjE exE conjE)
    fix e assume "r = Inl e" "w' = w" "remove_stale sp w = (Inl e, w)"
    with run show ?thesis by simp
  next
    fix w1 e assume a: "remove_stale sp w = (Inr (), w1)" "r = Inl e"
      "get_signing_key lib SIGNING_KEY_PATH w1 = (Inl e, w')"
    from remove_stale_cases [OF a(1)] have "trace w1 = trace w @ stale_events sp w" by simp
    then have "file_effects w w1" using stale_events_file by (auto simp: file_effects_def)
    with get_signing_key_effects [OF a(3)] have "file_effects w w'"
      by (blast intro: file_effects_trans)
    with run a show ?thesis by (auto dest: file_effects_new_events)
  next
    fix w1 k w2 e assume a: "remove_stale sp w = (Inr (), w1)"
      "get_signing_key lib SIGNING_KEY_PATH w1 = (Inr k, w2)"
    with f [OF a(1)] show ?thesis by simp
  next
    fix w1 k w2 rest assume a: "remove_stale sp w = (Inr (), w1)"
      "get_signing_key lib SIGNING_KEY_PATH w1 = (Inr k, w2)"
    with f [OF a(1)] show ?thesis by simp
  qed
qed

lemma save_public_key_creates_directory:
  assumes a: "\<forall>a \<in> set (ancestors OUTPUT_BASE_DIR).
                 a \<notin> dom (files w) \<and> a \<notin> socket_files w \<and> a \<notin> denied w"
    and b: "\<not> os_path_exists PUBLIC_KEY_PATH w" "PUBLIC_KEY_PATH \<notin> denied w"
  shows "\<exists>w'. save_public_key lib pub OUTPUT_BASE_DIR w = (Inr (), w')
           \<and> OUTPUT_BASE_DIR \<in> dirs w' \<and> files w' PUBLIC_KEY_PATH = Some (public_bytes lib pub)"
proof -
  define w1 where
    "w1 = emit (MadeDirs OUTPUT_BASE_DIR) (w\<lparr>dirs := dirs w \<union> set (ancestors OUTPUT_BASE_DIR)\<rparr>)"
  have m: "os_makedirs OUTPUT_BASE_DIR w = (Inr (), w1)"
    using a output_dir_facts(1) by (simp add: os_makedirs_def w1_def)
  have o: "OUTPUT_BASE_DIR \<in> dirs w1" by (simp add: w1_def output_dir_facts(2))
  have nd: "PUBLIC_KEY_PATH \<notin> dirs w1" "PUBLIC_KEY_PATH \<notin> socket_files w1"
    "PUBLIC_KEY_PATH \<notin> denied w1"
    using b output_dir_facts(3) by (simp_all add: w1_def os_path_exists_def emit_def)
  have "parent_error PUBLIC_KEY_PATH w1 = None"
    using o by (simp add: parent_error_def public_key_path_facts)
  then have "write_file PUBLIC_KEY_PATH (public_bytes lib pub) w1
        = (Inr (), emit (WroteFile PUBLIC_KEY_PATH)
             (w1\<lparr>files := (files w1)(PUBLIC_KEY_PATH \<mapsto> public_bytes lib pub)\<rparr>))"
    using nd public_key_path_facts(1-3) by (simp add: write_file_def)
  with m o show ?thesis
    by (simp add: save_public_key_def PUBLIC_KEY_PATH_def [symmetric])
qed

text \<open>
  Claim C10. On a first run, with no file at the key path, and with no directory
  \<^verbatim>\<open>/var/lib/pcr_attestation_keys\<close> for it, \<open>get_signing_key\<close> generates a key and
  raises \<^verbatim>\<open>FileNotFoundError\<close> when it opens the key path: \<open>save_private_key\<close>
  creates no directory. \<open>run_server\<close> then ends with an exception and has bound
  no socket and accepted no connection: its events are file events only. In the same
  world \<open>save_public_key\<close> succeeds, because it calls \<^verbatim>\<open>os.makedirs\<close> first and so
  creates the missing \<open>OUTPUT_BASE_DIR\<close>.
\<close>

theorem missing_key_directory_is_fatal:
  assumes nk: "\<not> os_path_exists SIGNING_KEY_PATH w"
    and nd: "\<not> os_path_exists (str ''/var/lib/pcr_attestation_keys'') w"
  shows "get_signing_key lib SIGNING_KEY_PATH w
           = (Inl FileNotFoundError, emit GeneratedKey (w\<lparr>seeds := tl (seeds w)\<rparr>))
     \<and> (\<exists>e w'. run_server lib ber socket_path out incoming w = (Inl e, w')
            \<and> list_all file_event (new_events w w')
            \<and> (e = FileNotFoundError \<or> remove_stale socket_path w = (Inl e, w)))
     \<and> ((\<forall>a \<in> set (ancestors OUTPUT_BASE_DIR).
             a \<notin> dom (files w) \<and> a \<notin> socket_files w \<and> a \<notin> denied w)
          \<and> \<not> os_path_exists PUBLIC_KEY_PATH w \<and> PUBLIC_KEY_PATH \<notin> denied w
        \<longrightarrow> (\<exists>w'. save_public_key lib pub OUTPUT_BASE_DIR w = (Inr (), w')
               \<and> OUTPUT_BASE_DIR \<in> dirs w'
               \<and> files w' PUBLIC_KEY_PATH = Some (public_bytes lib pub)))"
proof (intro conjI impI)
  show "get_signing_key lib SIGNING_KEY_PATH w
           = (Inl FileNotFoundError, emit GeneratedKey (w\<lparr>seeds := tl (seeds w)\<rparr>))"
    using nk nd by (rule get_signing_key_no_parent)
next
  have f: "\<And>w1. remove_stale socket_path w = (Inr (), w1)
     \<Longrightarrow> get_signing_key lib SIGNING_KEY_PATH w1
          = (Inl FileNotFoundError, emit GeneratedKey (w1\<lparr>seeds := tl (seeds w1)\<rparr>))"
  proof -
    fix w1 assume "remove_stale socket_path w = (Inr (), w1)"
    from remove_stale_cases [OF this] nk nd
    have "\<not> os_path_exists SIGNING_KEY_PATH w1"
      "\<not> os_path_exists (str ''/var/lib/pcr_attestation_keys'') w1" by auto
    then show "get_signing_key lib SIGNING_KEY_PATH w1
          = (Inl FileNotFoundError, emit GeneratedKey (w1\<lparr>seeds := tl (seeds w1)\<rparr>))"
      by (rule get_signing_key_no_parent)
  qed
  have f': "\<And>w1. remove_stale socket_path w = (Inr (), w1)
               \<Longrightarrow> \<exists>e w2. get_signing_key lib SIGNING_KEY_PATH w1 = (Inl e, w2)"
    using f by simp
  obtain e w' where r: "run_server lib ber socket_path out incoming w = (Inl e, w')"
    "list_all file_event (new_events w w')"
    "remove_stale socket_path w = (Inl e, w)
      \<or> (\<exists>w1. remove_stale socket_path w = (Inr (), w1)
             \<and> get_signing_key lib SIGNING_KEY_PATH w1 = (Inl e, w'))"
    using run_server_key_failure [of socket_path w lib ber out incoming, OF f'] by blast
  from r(3) f have "e = FileNotFoundError \<or> remove_stale socket_path w = (Inl e, w)" by auto
  with r(1,2) show "\<exists>e w'. run_server lib ber socket_path out incoming w = (Inl e, w')
            \<and> list_all file_event (new_events w w')
            \<and> (e = FileNotFoundError \<or> remove_stale socket_path w = (Inl e, w))"
    by blast
next
  assume "(\<forall>a \<in> set (ancestors OUTPUT_BASE_DIR).
             a \<notin> dom (files w) \<and> a \<notin> socket_files w \<and> a \<notin> denied w)
          \<and> \<not> os_path_exists PUBLIC_KEY_PATH w \<and> PUBLIC_KEY_PATH \<notin> denied w"
  then have "\<forall>a \<in> set (ancestors OUTPUT_BASE_DIR).
             a \<notin> dom (files w) \<and> a \<notin> socket_files w \<and> a \<notin> denied w"
    "\<not> os_path_exists PUBLIC_KEY_PATH w" "PUBLIC_KEY_PATH \<notin> denied w"
    by simp_all
  then show "\<exists>w'. save_public_key lib pub OUTPUT_BASE_DIR w = (Inr (), w')
               \<and> OUTPUT_BASE_DIR \<in> dirs w'
               \<and> files w' PUBLIC_KEY_PATH = Some (public_bytes lib pub)"
    by (rule save_public_key_creates_directory)
qed


lemma empty_world_exists: "\<not> os_path_exists p empty_world"
  by (simp add: os_path_exists_def empty_world_def)

theorem missing_key_directory_is_fatal_witness:
  "\<not> os_path_exists SIGNING_KEY_PATH empty_world
   \<and> \<not> os_path_exists (str ''/var/lib/pcr_attestation_keys'') empty_world
   \<and> get_signing_key toy_crypto SIGNING_KEY_PATH empty_world
       = (Inl FileNotFoundError, emit GeneratedKey empty_world)
   \<and> run_server toy_crypto definite_only SOCKET_PATH OUTPUT_BASE_DIR [hello_conn] empty_world
       = (Inl FileNotFoundError, emit GeneratedKey empty_world)
   \<and> new_events empty_world (emit GeneratedKey empty_world) = [GeneratedKey]
   \<and> (\<exists>w'. save_public_key toy_crypto 105 OUTPUT_BASE_DIR empty_world = (Inr (), w')
          \<and> OUTPUT_BASE_DIR \<in> dirs w'
          \<and> files w' PUBLIC_KEY_PATH = Some (public_bytes toy_crypto 105))"
proof -
  note T = missing_key_directory_is_fatal [OF empty_world_exists empty_world_exists,
      of toy_crypto definite_only SOCKET_PATH OUTPUT_BASE_DIR "[hello_conn]" 105]
  have s: "empty_world\<lparr>seeds := tl (seeds empty_world)\<rparr> = empty_world"
    by (simp add: empty_world_def)
  from T have g: "get_signing_key toy_crypto SIGNING_KEY_PATH empty_world
       = (Inl FileNotFoundError, emit GeneratedKey empty_world)"
    unfolding s by blast
  then have r: "run_server toy_crypto definite_only SOCKET_PATH OUTPUT_BASE_DIR [hello_conn] empty_world
       = (Inl FileNotFoundError, emit GeneratedKey empty_world)"
    by (simp add: run_server_def empty_world_exists)
  have n: "new_events empty_world (emit GeneratedKey empty_world) = [GeneratedKey]"
    by (simp add: new_events_def emit_def)
  have "\<forall>a \<in> set (ancestors OUTPUT_BASE_DIR).
             a \<notin> dom (files empty_world) \<and> a \<notin> socket_files empty_world \<and> a \<notin> denied empty_world"
    "PUBLIC_KEY_PATH \<notin> denied empty_world"
    by (simp_all add: empty_world_def)
  with T empty_world_exists [of PUBLIC_KEY_PATH]
  have p: "\<exists>w'. save_public_key toy_crypto 105 OUTPUT_BASE_DIR empty_world = (Inr (), w')
          \<and> OUTPUT_BASE_DIR \<in> dirs w'
          \<and> files w' PUBLIC_KEY_PATH = Some (public_bytes toy_crypto 105)"
    by blast
  from g r n p empty_world_exists show ?thesis by blast
qed

section \<open>Loading an invalid key\<close>

text \<open>
  Events of the file system never announce a bound or an accepted connection, and the
  removal of the stale socket file is such an event.
\<close>

lemma file_effects_not_accepted:
  "file_effects w w' \<Longrightarrow> Accepted \<notin> set (new_events w w') \<and> Bound p \<notin> set (new_events w w')
     \<and> length (trace w) \<le> length (trace w')"
  by (force simp: file_effects_def new_events_def list_all_iff)

lemma remove_stale_effects: "remove_stale sp w = (Inr (), w1) \<Longrightarrow> file_effects w w1"
  by (drule remove_stale_cases) (auto simp: file_effects_def stale_events_def)

lemma run_server_accepted:
  assumes run: "run_server lib ber sp out incoming w = (r, w')"
    and acc: "Accepted \<in> set (new_events w w')"
  shows "\<exists>w1 k w2 rest. get_signing_key lib SIGNING_KEY_PATH w1 = (Inr k, w2)
           \<and> trace w' = trace w2 @ rest \<and> Accepted \<notin> set (new_events w w2)
           \<and> length (trace w) \<le> length (trace w2)"
proof -
  from run_server_cases [OF run] show ?thesis
  proof (elim disjE exE conjE)
    fix e assume "w' = w"
    with acc show ?thesis by simp
  next
    fix w1 e assume a: "remove_stale sp w = (Inr (), w1)"
      "get_signing_key lib SIGNING_KEY_PATH w1 = (Inl e, w')"
    from remove_stale_effects [OF a(1)] get_signing_key_effects [OF a(2)]
    have "file_effects w w'" by (rule file_effects_trans)
    with acc file_effects_not_accepted show ?thesis by blast
  next
    fix w1 k w2 e assume a: "remove_stale sp w = (Inr (), w1)"
      "get_signing_key lib SIGNING_KEY_PATH w1 = (Inr k, w2)" "w' = w2"
    from remove_stale_effects [OF a(1)] get_signing_key_effects [OF a(2)]
    have "file_effects w w2" by (rule file_effects_trans)
    with acc a(3) file_effects_not_accepted show ?thesis by blast
  next
    fix w1 k w2 rest assume a: "remove_stale sp w = (Inr (), w1)"
      "get_signing_key lib SIGNING_KEY_PATH w1 = (Inr k, w2)"
      "trace w' = trace w2 @ [Bound sp, Listening] @ rest"
    from remove_stale_effects [OF a(1)] get_signing_key_effects [OF a(2)]
    have "file_effects w w2" by (rule file_effects_trans)
    from file_effects_not_accepted [OF this] a(2,3) show ?thesis by blast
  qed
qed

text \<open>
  Claim C7. A key file that exists but does not hold an Ed25519 private key is fatal.
  \<^item> Whenever the file at \<open>key_path\<close> exists and no content it may hold loads as
    an Ed25519 private key, \<open>get_signing_key\<close> raises, and it has done nothing but file
    operations: no key is generated and nothing is written in its place.
  \<^item> When the file is read and the library rejects it with a \<open>ValueError\<close> or
    \<open>InvalidKey\<close>, or loads a key of another type, the exception raised is
    \<open>AttestationDaemonError\<close>, the only error class the daemon defines for the failure to
    load its key.
  \<^item> In that situation \<open>run_server\<close> ends with an exception and has neither bound the
    socket nor accepted a connection.
  \<^item> Every run that accepts a connection has obtained a signing key from
    \<open>get_signing_key\<close> before the first connection was accepted.
\<close>

theorem invalid_key_file_is_fatal:
  "(os_path_exists key_path w
      \<and> (\<forall>pem k. files w key_path = Some pem
             \<longrightarrow> load_pem_private_key lib pem \<noteq> Inr (Ed25519PrivateKey k))
     \<longrightarrow> (\<exists>e w'. get_signing_key lib key_path w = (Inl e, w') \<and> file_effects w w'))
   \<and> (files w key_path = Some pem \<and> key_path \<notin> dirs w \<and> key_path \<notin> denied w
      \<and> (load_pem_private_key lib pem = Inr OtherPrivateKey
          \<or> (\<exists>e. load_pem_private_key lib pem = Inl e \<and> (is_ValueError e \<or> e = InvalidKey)))
     \<longrightarrow> get_signing_key lib key_path w
           = (Inl AttestationDaemonError, emit (ReadFile key_path) w))
   \<and> (os_path_exists SIGNING_KEY_PATH w
      \<and> (\<forall>pem k. files w SIGNING_KEY_PATH = Some pem
             \<longrightarrow> load_pem_private_key lib pem \<noteq> Inr (Ed25519PrivateKey k))
      \<and> socket_path \<noteq> SIGNING_KEY_PATH
     \<longrightarrow> (\<exists>e w'. run_server lib ber socket_path out incoming w = (Inl e, w')
            \<and> list_all file_event (new_events w w')))
   \<and> (run_server lib ber socket_path out incoming w = (r, w')
      \<and> Accepted \<in> set (new_events w w')
     \<longrightarrow> (\<exists>w1 k w2 rest. get_signing_key lib SIGNING_KEY_PATH w1 = (Inr k, w2)
            \<and> trace w' = trace w2 @ rest \<and> Accepted \<notin> set (new_events w w2)
            \<and> length (trace w) \<le> length (trace w2)))"
proof (intro conjI impI)
  assume a: "os_path_exists key_path w
      \<and> (\<forall>pem k. files w key_path = Some pem
             \<longrightarrow> load_pem_private_key lib pem \<noteq> Inr (Ed25519PrivateKey k))"
  then have "\<exists>e. get_signing_key lib key_path w = (Inl e, w)
           \<or> get_signing_key lib key_path w = (Inl e, emit (ReadFile key_path) w)"
    by (intro get_signing_key_bad) simp_all
  then obtain e w' where g: "get_signing_key lib key_path w = (Inl e, w')" by blast
  from get_signing_key_effects [OF g] g
  show "\<exists>e w'. get_signing_key lib key_path w = (Inl e, w') \<and> file_effects w w'" by blast
next
  assume "files w key_path = Some pem \<and> key_path \<notin> dirs w \<and> key_path \<notin> denied w
      \<and> (load_pem_private_key lib pem = Inr OtherPrivateKey
          \<or> (\<exists>e. load_pem_private_key lib pem = Inl e \<and> (is_ValueError e \<or> e = InvalidKey)))"
  then have "files w key_path = Some pem" "key_path \<notin> dirs w" "key_path \<notin> denied w"
    "load_pem_private_key lib pem = Inr OtherPrivateKey
          \<or> (\<exists>e. load_pem_private_key lib pem = Inl e \<and> (is_ValueError e \<or> e = InvalidKey))"
    by blast+
  then show "get_signing_key lib key_path w
           = (Inl AttestationDaemonError, emit (ReadFile key_path) w)"
    by (rule get_signing_key_rejected)
next
  assume a: "os_path_exists SIGNING_KEY_PATH w
      \<and> (\<forall>pem k. files w SIGNING_KEY_PATH = Some pem
             \<longrightarrow> load_pem_private_key lib pem \<noteq> Inr (Ed25519PrivateKey k))
      \<and> socket_path \<noteq> SIGNING_KEY_PATH"
  have f: "\<And>w1. remove_stale socket_path w = (Inr (), w1)
               \<Longrightarrow> \<exists>e w2. get_signing_key lib SIGNING_KEY_PATH w1 = (Inl e, w2)"
  proof -
    fix w1 assume "remove_stale socket_path w = (Inr (), w1)"
    from remove_stale_cases [OF this] a
    have "os_path_exists SIGNING_KEY_PATH w1"
      "files w1 SIGNING_KEY_PATH = files w SIGNING_KEY_PATH" by auto
    with a have "\<exists>e. get_signing_key lib SIGNING_KEY_PATH w1 = (Inl e, w1)
           \<or> get_signing_key lib SIGNING_KEY_PATH w1 = (Inl e, emit (ReadFile SIGNING_KEY_PATH) w1)"
      by (intro get_signing_key_bad) simp_all
    then show "\<exists>e w2. get_signing_key lib SIGNING_KEY_PATH w1 = (Inl e, w2)" by blast
  qed
  from run_server_key_failure [of socket_path w lib ber out incoming, OF f]
  show "\<exists>e w'. run_server lib ber socket_path out incoming w = (Inl e, w')
            \<and> list_all file_event (new_events w w')" by blast
next
  assume "run_server lib ber socket_path out incoming w = (r, w')
      \<and> Accepted \<in> set (new_events w w')"
  then have "run_server lib ber socket_path out incoming w = (r, w')"
    "Accepted \<in> set (new_events w w')" by simp_all
  then show "\<exists>w1 k w2 rest. get_signing_key lib SIGNING_KEY_PATH w1 = (Inr k, w2)
            \<and> trace w' = trace w2 @ rest \<and> Accepted \<notin> set (new_events w w2)
            \<and> length (trace w) \<le> length (trace w2)"
    by (rule run_server_accepted)
qed


text \<open>
  Two sample worlds: one whose key file holds bytes that are no key, and one with a valid
  key file and a stale socket file, on which the daemon serves one connection that closes
  too early and is then interrupted.
\<close>

definition bad_key_world :: world where
  "bad_key_world = empty_world\<lparr>files := [SIGNING_KEY_PATH \<mapsto> [1, 2, 3]]\<rparr>"

definition stale_world :: world where
  "stale_world =
     empty_world\<lparr>files := [SIGNING_KEY_PATH \<mapsto> [80, 5]], socket_files := {str ''s''}\<rparr>"

lemma accept_loop_truncated:
  assumes "length (concat (pending conn)) < 4
      \<or> length (concat (pending conn)) < 4 + int_from_bytes (take 4 (concat (pending conn)))"
  shows "accept_loop lib ber out key (conn # conns) w
         = accept_loop lib ber out key conns
             (emit ClosedConnection (emit (LoggedUnexpectedError RuntimeError)
                (emit Accepted (w\<lparr>clock := arrival conn\<rparr>))))"
  using handle_connection_truncated [OF assms, of lib ber out key "emit Accepted (w\<lparr>clock := arrival conn\<rparr>)"]
  by auto

lemma truncated_conn_short:
  "length (concat (pending truncated_conn)) < 4
      \<or> length (concat (pending truncated_conn))
          < 4 + int_from_bytes (take 4 (concat (pending truncated_conn)))"
  by (simp add: truncated_conn_def int_from_bytes_def)

lemma truncated_conn_handled:
  "handle_connection lib ber truncated_conn out key w
   = (Inr (), truncated_conn\<lparr>pending := [], closed := True\<rparr>,
      emit ClosedConnection (emit (LoggedUnexpectedError RuntimeError) w))"
proof -
  have 1: "recvall truncated_conn 4
     = (Inr [0, 0, 0, 100],
        truncated_conn\<lparr>pending := [[1, 2], [], [3, 4, 5, 6, 7, 8, 9, 10]]\<rparr>)"
    by (simp add: recvall_def recvall_loop.simps sock_recv_def truncated_conn_def)
  have 2: "recvall (truncated_conn\<lparr>pending := [[1, 2], [], [3, 4, 5, 6, 7, 8, 9, 10]]\<rparr>) 100
     = (Inl RuntimeError, truncated_conn\<lparr>pending := []\<rparr>)"
    by (simp add: recvall_def recvall_loop.simps sock_recv_def truncated_conn_def)
  have "handle_file_data lib ber truncated_conn out key w
     = (Inl RuntimeError, truncated_conn\<lparr>pending := []\<rparr>, w)"
    by (simp add: handle_file_data_def 1 2 struct_unpack_I_def int_from_bytes_def)
  then show ?thesis
    by (simp add: handle_connection_def close_connection_def is_Exception_def)
qed

lemma sample_paths:
  "str ''s'' \<noteq> SIGNING_KEY_PATH" "str ''s'' \<noteq> []" "os_path_dirname (str ''s'') = []"
  "SOCKET_PATH \<noteq> SIGNING_KEY_PATH"
  by (simp_all add: SIGNING_KEY_PATH_def SOCKET_PATH_def str_def os_path_dirname_def slash_def)

lemma sample_key_loaded:
  "get_signing_key toy_crypto SIGNING_KEY_PATH
     \<lparr>dirs = {}, files = [SIGNING_KEY_PATH \<mapsto> [80, 5]], socket_files = {}, denied = {},
      clock = 0, seeds = [], trace = t\<rparr>
   = (Inr 5, \<lparr>dirs = {}, files = [SIGNING_KEY_PATH \<mapsto> [80, 5]], socket_files = {},
              denied = {}, clock = 0, seeds = [], trace = t @ [ReadFile SIGNING_KEY_PATH]\<rparr>)"
  by (simp add: get_signing_key_def os_path_exists_def read_file_def emit_def toy_crypto_def)

lemma sample_run:
  "case run_server toy_crypto definite_only (str ''s'') (str ''out'') [truncated_conn] stale_world of
     (r, w') \<Rightarrow> r = Inr ()
       \<and> trace w' = [RemovedFile (str ''s''), ReadFile SIGNING_KEY_PATH, Bound (str ''s''),
                     Listening, Accepted, LoggedUnexpectedError RuntimeError, ClosedConnection,
                     ClosedServer, RemovedFile (str ''s'')]
       \<and> trace stale_world = []"
proof -
  have e: "os_path_exists (str ''s'') stale_world"
    by (simp add: os_path_exists_def stale_world_def empty_world_def)
  have r: "os_remove (str ''s'') stale_world
      = (Inr (), emit (RemovedFile (str ''s''))
        (stale_world\<lparr>files := (files stale_world)(str ''s'' := None),
                      socket_files := socket_files stale_world - {str ''s''}\<rparr>))"
    by (simp add: os_remove_def os_path_exists_def stale_world_def empty_world_def)
  show ?thesis
    unfolding run_server_def
    using sample_paths
    by (simp add: e r sample_key_loaded truncated_conn_handled
        sock_bind_def parent_error_def os_path_exists_def os_remove_def Let_def
        stale_world_def empty_world_def emit_def)
qed


theorem invalid_key_file_is_fatal_witness:
  "os_path_exists SIGNING_KEY_PATH bad_key_world
   \<and> files bad_key_world SIGNING_KEY_PATH = Some [1, 2, 3]
   \<and> load_pem_private_key toy_crypto [1, 2, 3] = Inl ValueError
   \<and> get_signing_key toy_crypto SIGNING_KEY_PATH bad_key_world
       = (Inl AttestationDaemonError, emit (ReadFile SIGNING_KEY_PATH) bad_key_world)
   \<and> (\<exists>e w'. get_signing_key toy_crypto SIGNING_KEY_PATH bad_key_world = (Inl e, w')
          \<and> file_effects bad_key_world w')
   \<and> (\<exists>e w'. run_server toy_crypto definite_only SOCKET_PATH OUTPUT_BASE_DIR [hello_conn]
                 bad_key_world = (Inl e, w')
          \<and> list_all file_event (new_events bad_key_world w'))
   \<and> (\<exists>w1 k w2 rest. get_signing_key toy_crypto SIGNING_KEY_PATH w1 = (Inr k, w2)
          \<and> trace (snd (run_server toy_crypto definite_only (str ''s'') (str ''out'')
                           [truncated_conn] stale_world)) = trace w2 @ rest
          \<and> Accepted \<notin> set (new_events stale_world w2))"
proof -
  have f: "files bad_key_world SIGNING_KEY_PATH = Some [1, 2, 3]"
    "SIGNING_KEY_PATH \<notin> dirs bad_key_world" "SIGNING_KEY_PATH \<notin> denied bad_key_world"
    by (simp_all add: bad_key_world_def empty_world_def)
  then have ex: "os_path_exists SIGNING_KEY_PATH bad_key_world"
    by (auto simp: os_path_exists_def)
  have l: "load_pem_private_key toy_crypto [1, 2, 3] = Inl ValueError"
    by (simp add: toy_crypto_def)
  have bad: "\<forall>pem k. files bad_key_world SIGNING_KEY_PATH = Some pem
      \<longrightarrow> load_pem_private_key toy_crypto pem \<noteq> Inr (Ed25519PrivateKey k)"
    using f(1) l by simp
  note T = invalid_key_file_is_fatal [where lib = toy_crypto and ber = definite_only]
  have 1: "\<exists>e w'. get_signing_key toy_crypto SIGNING_KEY_PATH bad_key_world = (Inl e, w')
          \<and> file_effects bad_key_world w'"
    using T [where key_path = SIGNING_KEY_PATH and w = bad_key_world, THEN conjunct1] ex bad
    by blast
  have v: "load_pem_private_key toy_crypto [1, 2, 3] = Inr OtherPrivateKey
      \<or> (\<exists>e. load_pem_private_key toy_crypto [1, 2, 3] = Inl e \<and> (is_ValueError e \<or> e = InvalidKey))"
    using l by (simp add: is_ValueError_def)
  have 2: "get_signing_key toy_crypto SIGNING_KEY_PATH bad_key_world
       = (Inl AttestationDaemonError, emit (ReadFile SIGNING_KEY_PATH) bad_key_world)"
    using T [where key_path = SIGNING_KEY_PATH and w = bad_key_world and pem = "[1, 2, 3]",
        THEN conjunct2, THEN conjunct1] f v
    by blast
  have 3: "\<exists>e w'. run_server toy_crypto definite_only SOCKET_PATH OUTPUT_BASE_DIR [hello_conn]
                 bad_key_world = (Inl e, w')
          \<and> list_all file_event (new_events bad_key_world w')"
    using T [where w = bad_key_world and socket_path = SOCKET_PATH and out = OUTPUT_BASE_DIR
        and incoming = "[hello_conn]", THEN conjunct2, THEN conjunct2, THEN conjunct1]
      ex bad sample_paths(4)
    by blast
  obtain r w' where run: "run_server toy_crypto definite_only (str ''s'') (str ''out'')
                           [truncated_conn] stale_world = (r, w')"
    by (cases "run_server toy_crypto definite_only (str ''s'') (str ''out'')
                           [truncated_conn] stale_world")
  with sample_run have t: "trace w' = [RemovedFile (str ''s''), ReadFile SIGNING_KEY_PATH, Bound (str ''s''),
                     Listening, Accepted, LoggedUnexpectedError RuntimeError, ClosedConnection,
                     ClosedServer, RemovedFile (str ''s'')]" "trace stale_world = []"
    by simp_all
  then have "Accepted \<in> set (new_events stale_world w')" by (simp add: new_events_def)
  with run T [where w = stale_world and socket_path = "str ''s''" and out = "str ''out''"
      and incoming = "[truncated_conn]" and r = r and w' = w',
      THEN conjunct2, THEN conjunct2, THEN conjunct2]
  have 4: "\<exists>w1 k w2 rest. get_signing_key toy_crypto SIGNING_KEY_PATH w1 = (Inr k, w2)
          \<and> trace w' = trace w2 @ rest \<and> Accepted \<notin> set (new_events stale_world w2)"
    by blast
  from ex f(1) l 1 2 3 4 run show ?thesis by simp
qed

section \<open>Order of the start-up steps\<close>

text \<open>
  The order read as socket first: no operation on the key before the socket is bound, and
  the key loaded or created after it.  The events that concern the key are the reads and
  writes of the key file and the generation of a key.
\<close>

fun key_event :: "event \<Rightarrow> bool" where
  "key_event (ReadFile p) = (p = SIGNING_KEY_PATH)"
| "key_event (WroteFile p) = (p = SIGNING_KEY_PATH)"
| "key_event GeneratedKey = True"
| "key_event ev = False"

definition spec_startup_order :: "path \<Rightarrow> event list \<Rightarrow> bool" where
  "spec_startup_order socket_path evs =
     (\<not> list_ex key_event (takeWhile (\<lambda>ev. ev \<noteq> Bound socket_path) evs)
      \<and> list_ex key_event (dropWhile (\<lambda>ev. ev \<noteq> Bound socket_path) evs))"

text \<open>
  A successful \<open>get_signing_key\<close> leaves a trace: it starts with the read of the key file
  or with the generation of a key.
\<close>

lemma get_signing_key_Inr_events:
  assumes g: "get_signing_key lib p w = (Inr k, w')"
  shows "\<exists>evs. trace w' = trace w @ evs \<and> evs \<noteq> [] \<and> list_all file_event evs
           \<and> (hd evs = ReadFile p \<or> hd evs = GeneratedKey)"
proof (cases "os_path_exists p w")
  case True
  obtain q w1 where rd: "read_file p w = (q, w1)" by (cases "read_file p w")
  from read_file_cases [OF rd] g True rd have "w' = emit (ReadFile p) w"
    by (auto simp: get_signing_key_def split: sum.splits loaded_key.splits if_splits)
  then show ?thesis by simp
next
  case False
  define k0 where "k0 = generate lib (case seeds w of [] \<Rightarrow> 0 | s # ss \<Rightarrow> s)"
  define w1 where "w1 = emit GeneratedKey (w\<lparr>seeds := tl (seeds w)\<rparr>)"
  have gk: "generate_key lib w = (k0, w1)" by (simp add: generate_key_def k0_def w1_def)
  have t1: "trace w1 = trace w @ [GeneratedKey]" by (simp add: w1_def emit_def)
  from g False gk obtain w2 where
    s: "save_private_key lib k0 p w1 = (Inr (), w2)"
    and pb: "save_public_key lib (public_key lib k0) OUTPUT_BASE_DIR w2 = (Inr (), w')"
    by (auto simp: get_signing_key_def split: sum.splits prod.splits)
  from s have "file_effects w1 w2"
    using write_file_effects by (auto simp: save_private_key_def)
  moreover from pb have "file_effects w2 w'"
  proof -
    from pb obtain w3 where m: "os_makedirs OUTPUT_BASE_DIR w2 = (Inr (), w3)"
      and f: "write_file (os_path_join OUTPUT_BASE_DIR (str ''signing_key.pub.pem''))
                (public_bytes lib (public_key lib k0)) w3 = (Inr (), w')"
      by (auto simp: save_public_key_def split: sum.splits prod.splits)
    from os_makedirs_effects [OF m] write_file_effects [OF f] show ?thesis
      by (blast intro: file_effects_trans)
  qed
  ultimately have "file_effects w1 w'" by (rule file_effects_trans)
  then obtain evs where "trace w' = trace w1 @ evs" "list_all file_event evs"
    by (auto simp: file_effects_def)
  with t1 have "trace w' = trace w @ (GeneratedKey # evs)" "list_all file_event (GeneratedKey # evs)"
    by simp_all
  then show ?thesis by (intro exI [of _ "GeneratedKey # evs"]) simp
qed

text \<open>
  Claim C8, as the daemon performs it. In every run of \<open>run_server\<close> that binds the
  socket, the events since the start are, in this order: the removal of the stale socket
  file if there was one, then the events of \<open>get_signing_key\<close>, which returned a key
  and begin with the read of the key file or the generation of a key and hold file
  operations only, and only then the bind and the listen, followed by the events of the
  accept loop.
\<close>

theorem startup_order:
  assumes run: "run_server lib ber socket_path out incoming w = (r, w')"
    and bound: "Bound socket_path \<in> set (new_events w w')"
  shows "\<exists>w1 k w2 rest. remove_stale socket_path w = (Inr (), w1)
      \<and> get_signing_key lib SIGNING_KEY_PATH w1 = (Inr k, w2)
      \<and> new_events w w'
          = stale_events socket_path w @ new_events w1 w2 @ [Bound socket_path, Listening] @ rest
      \<and> new_events w1 w2 \<noteq> [] \<and> list_all file_event (new_events w1 w2)
      \<and> (hd (new_events w1 w2) = ReadFile SIGNING_KEY_PATH \<or> hd (new_events w1 w2) = GeneratedKey)"
proof -
  from run_server_cases [OF run] show ?thesis
  proof (elim disjE exE conjE)
    fix e assume "w' = w"
    with bound show ?thesis by simp
  next
    fix w1 e assume a: "remove_stale socket_path w = (Inr (), w1)"
      "get_signing_key lib SIGNING_KEY_PATH w1 = (Inl e, w')"
    from remove_stale_effects [OF a(1)] get_signing_key_effects [OF a(2)]
    have "file_effects w w'" by (rule file_effects_trans)
    with bound file_effects_not_accepted show ?thesis by blast
  next
    fix w1 k w2 e assume a: "remove_stale socket_path w = (Inr (), w1)"
      "get_signing_key lib SIGNING_KEY_PATH w1 = (Inr k, w2)" "w' = w2"
    from remove_stale_effects [OF a(1)] get_signing_key_effects [OF a(2)]
    have "file_effects w w2" by (rule file_effects_trans)
    with bound a(3) file_effects_not_accepted show ?thesis by blast
  next
    fix w1 k w2 rest assume a: "remove_stale socket_path w = (Inr (), w1)"
      "get_signing_key lib SIGNING_KEY_PATH w1 = (Inr k, w2)"
      "trace w' = trace w2 @ [Bound socket_path, Listening] @ rest"
    from remove_stale_cases [OF a(1)] have t1: "trace w1 = trace w @ stale_events socket_path w"
      by simp
    from get_signing_key_Inr_events [OF a(2)] obtain evs where
      e: "trace w2 = trace w1 @ evs" "evs \<noteq> []" "list_all file_event evs"
        "hd evs = ReadFile SIGNING_KEY_PATH \<or> hd evs = GeneratedKey" by blast
    have n12: "new_events w1 w2 = evs" using e(1) by (simp add: new_events_def)
    have "new_events w w'
          = stale_events socket_path w @ evs @ [Bound socket_path, Listening] @ rest"
      using a(3) e(1) t1 by (simp add: new_events_def)
    with a(1,2) e n12 show ?thesis by auto
  qed
qed

theorem startup_order_witness:
  "Bound (str ''s'') \<in> set (new_events stale_world
       (snd (run_server toy_crypto definite_only (str ''s'') (str ''out'') [truncated_conn]
               stale_world)))
   \<and> (\<exists>w1 k w2 rest. remove_stale (str ''s'') stale_world = (Inr (), w1)
      \<and> get_signing_key toy_crypto SIGNING_KEY_PATH w1 = (Inr k, w2)
      \<and> new_events stale_world
           (snd (run_server toy_crypto definite_only (str ''s'') (str ''out'') [truncated_conn]
                   stale_world))
          = stale_events (str ''s'') stale_world @ new_events w1 w2
            @ [Bound (str ''s''), Listening] @ rest
      \<and> new_events w1 w2 \<noteq> [])"
proof -
  obtain r w' where run: "run_server toy_crypto definite_only (str ''s'') (str ''out'')
                           [truncated_conn] stale_world = (r, w')"
    by (cases "run_server toy_crypto definite_only (str ''s'') (str ''out'')
                           [truncated_conn] stale_world")
  with sample_run have t: "trace w' = [RemovedFile (str ''s''), ReadFile SIGNING_KEY_PATH, Bound (str ''s''),
                     Listening, Accepted, LoggedUnexpectedError RuntimeError, ClosedConnection,
                     ClosedServer, RemovedFile (str ''s'')]" "trace stale_world = []"
    by simp_all
  then have b: "Bound (str ''s'') \<in> set (new_events stale_world w')" by (simp add: new_events_def)
  from startup_order [OF run b] b run show ?thesis by auto
qed

text \<open>
  On the sample world with a stale socket file and a valid key file the key is read before
  the socket is bound, so the run does not follow the order that binds the socket before the
  key is loaded.
\<close>

theorem startup_order_counterexample:
  "new_events stale_world
     (snd (run_server toy_crypto definite_only (str ''s'') (str ''out'') [truncated_conn]
             stale_world))
   = [RemovedFile (str ''s''), ReadFile SIGNING_KEY_PATH, Bound (str ''s''), Listening,
      Accepted, LoggedUnexpectedError RuntimeError, ClosedConnection, ClosedServer,
      RemovedFile (str ''s'')]
   \<and> \<not> spec_startup_order (str ''s'')
        (new_events stale_world
           (snd (run_server toy_crypto definite_only (str ''s'') (str ''out'') [truncated_conn]
                   stale_world)))"
proof -
  obtain r w' where run: "run_server toy_crypto definite_only (str ''s'') (str ''out'')
                           [truncated_conn] stale_world = (r, w')"
    by (cases "run_server toy_crypto definite_only (str ''s'') (str ''out'')
                           [truncated_conn] stale_world")
  with sample_run have t: "trace w' = [RemovedFile (str ''s''), ReadFile SIGNING_KEY_PATH, Bound (str ''s''),
                     Listening, Accepted, LoggedUnexpectedError RuntimeError, ClosedConnection,
                     ClosedServer, RemovedFile (str ''s'')]" "trace stale_world = []"
    by simp_all
  then have n: "new_events stale_world w' = [RemovedFile (str ''s''), ReadFile SIGNING_KEY_PATH,
      Bound (str ''s''), Listening, Accepted, LoggedUnexpectedError RuntimeError, ClosedConnection,
      ClosedServer, RemovedFile (str ''s'')]"
    by (simp add: new_events_def)
  have "\<not> spec_startup_order (str ''s'') [RemovedFile (str ''s''), ReadFile SIGNING_KEY_PATH,
      Bound (str ''s''), Listening, Accepted, LoggedUnexpectedError RuntimeError, ClosedConnection,
      ClosedServer, RemovedFile (str ''s'')]"
    by (simp add: spec_startup_order_def)
  with n run show ?thesis by simp
qed

section \<open>Persistence of the key\<close>

text \<open>
  A write that succeeds was on a path that is no directory, no socket file and not refused.
  A call of \<open>get_signing_key\<close> that finds nothing at the path and returns a key has
  generated it from the next seed, written it to the path, created the output directory and
  written the public key there, in this order, and has changed no other file.
\<close>

lemma write_file_Inr:
  "write_file p d w = (Inr (), w') \<Longrightarrow>
     p \<notin> dirs w \<and> p \<notin> denied w \<and> p \<notin> socket_files w
     \<and> w' = emit (WroteFile p) (w\<lparr>files := (files w)(p \<mapsto> d)\<rparr>)"
  by (auto simp: write_file_def parent_error_def Let_def split: if_splits option.splits)

lemma get_signing_key_created:
  assumes ne: "\<not> os_path_exists key_path w"
    and g: "get_signing_key lib key_path w = (Inr k, w1)"
    and np: "key_path \<noteq> PUBLIC_KEY_PATH"
  shows "k = generate lib (case seeds w of [] \<Rightarrow> 0 | s # ss \<Rightarrow> s)"
    and "files w1 = (files w)(key_path \<mapsto> private_bytes lib k,
                              PUBLIC_KEY_PATH \<mapsto> public_bytes lib (public_key lib k))"
    and "key_path \<notin> dirs w1" and "key_path \<notin> denied w1"
    and "new_events w w1 = [GeneratedKey, WroteFile key_path, MadeDirs OUTPUT_BASE_DIR,
                            WroteFile PUBLIC_KEY_PATH]"
proof -
  define k0 where "k0 = generate lib (case seeds w of [] \<Rightarrow> 0 | s # ss \<Rightarrow> s)"
  define v1 where "v1 = emit GeneratedKey (w\<lparr>seeds := tl (seeds w)\<rparr>)"
  have gk: "generate_key lib w = (k0, v1)" by (simp add: generate_key_def k0_def v1_def)
  from g ne gk obtain v2 where
    s: "write_file key_path (private_bytes lib k0) v1 = (Inr (), v2)"
    and pb: "save_public_key lib (public_key lib k0) OUTPUT_BASE_DIR v2 = (Inr (), w1)"
    and k: "k = k0"
    by (auto simp: get_signing_key_def save_private_key_def split: sum.splits prod.splits)
  from pb obtain v3 where m: "os_makedirs OUTPUT_BASE_DIR v2 = (Inr (), v3)"
    and f: "write_file PUBLIC_KEY_PATH (public_bytes lib (public_key lib k0)) v3 = (Inr (), w1)"
    by (auto simp: save_public_key_def PUBLIC_KEY_PATH_def split: sum.splits prod.splits)
  note s' = write_file_Inr [OF s]
  from os_makedirs_cases [OF m]
  have m': "v3 = emit (MadeDirs OUTPUT_BASE_DIR) (v2\<lparr>dirs := dirs v2 \<union> set (ancestors OUTPUT_BASE_DIR)\<rparr>)"
    and anc: "\<forall>a \<in> set (ancestors OUTPUT_BASE_DIR). a \<notin> dom (files v2)"
    by auto
  note f' = write_file_Inr [OF f]
  have kf: "key_path \<in> dom (files v2)" using s' by (simp add: emit_def)
  with anc have ka: "key_path \<notin> set (ancestors OUTPUT_BASE_DIR)" by blast
  show "k = generate lib (case seeds w of [] \<Rightarrow> 0 | s # ss \<Rightarrow> s)" using k k0_def by simp
  show "files w1 = (files w)(key_path \<mapsto> private_bytes lib k,
                              PUBLIC_KEY_PATH \<mapsto> public_bytes lib (public_key lib k))"
    using s' m' f' k by (simp add: emit_def v1_def)
  show "key_path \<notin> dirs w1" using s' m' f' ka by (simp add: emit_def v1_def)
  show "key_path \<notin> denied w1" using s' m' f' by (simp add: emit_def v1_def)
  show "new_events w w1 = [GeneratedKey, WroteFile key_path, MadeDirs OUTPUT_BASE_DIR,
                            WroteFile PUBLIC_KEY_PATH]"
    using s' m' f' by (simp add: emit_def v1_def new_events_def)
qed


text \<open>
  A call that finds the serialisation of a key at the path returns that key and only reads:
  the world is unchanged but for the trace. So are any number of calls in a row.
\<close>

lemma get_signing_key_reload:
  assumes "files w key_path = Some (private_bytes lib k)"
    and "key_path \<notin> dirs w" and "key_path \<notin> denied w"
    and "load_pem_private_key lib (private_bytes lib k) = Inr (Ed25519PrivateKey k)"
  shows "get_signing_key lib key_path w = (Inr k, emit (ReadFile key_path) w)"
  using assms by (simp add: get_signing_key_def os_path_exists_def read_file_def domI)


lemma reload_funpow:
  assumes "files w key_path = Some (private_bytes lib k)"
    and "key_path \<notin> dirs w" and "key_path \<notin> denied w"
    and "load_pem_private_key lib (private_bytes lib k) = Inr (Ed25519PrivateKey k)"
  shows "((\<lambda>v. snd (get_signing_key lib key_path v)) ^^ n) w
         = w\<lparr>trace := trace w @ replicate n (ReadFile key_path)\<rparr>"
proof (induction n)
  case 0
  show ?case by simp
next
  case (Suc n)
  let ?v = "w\<lparr>trace := trace w @ replicate n (ReadFile key_path)\<rparr>"
  have "get_signing_key lib key_path ?v = (Inr k, emit (ReadFile key_path) ?v)"
    using assms by (intro get_signing_key_reload) simp_all
  with Suc show ?case by (simp add: emit_def replicate_append_same)
qed


text \<open>
  Claim C6. Let a first call of \<open>get_signing_key\<close> find nothing at \<open>key_path\<close> and
  return the key \<open>k\<close>, where the path is not that of the public key file and the PEM
  parser of the library reads the serialisation of \<open>k\<close> back as \<open>k\<close>. Then
  \<^item> the file at \<open>key_path\<close> holds the serialisation of \<open>k\<close>, and the public key file
    that of its public key;
  \<^item> a later call, in any world that still has these bytes at \<open>key_path\<close>, returns
    \<open>k\<close>, whose serialisation is byte for byte what was persisted, and does nothing but
    read the key file;
  \<^item> after any number \<open>n\<close> of further calls the next call returns \<open>k\<close> again, every
    file, the public key file included, is as the first call left it, and the only events
    are \<open>n\<close> reads of the key file: nothing was written.
\<close>

theorem key_persistence_idempotence:
  assumes fresh: "\<not> os_path_exists key_path w"
    and first: "get_signing_key lib key_path w = (Inr k, w1)"
    and distinct_paths: "key_path \<noteq> PUBLIC_KEY_PATH"
    and pem: "load_pem_private_key lib (private_bytes lib k) = Inr (Ed25519PrivateKey k)"
  shows "files w1 key_path = Some (private_bytes lib k)
     \<and> files w1 PUBLIC_KEY_PATH = Some (public_bytes lib (public_key lib k))
     \<and> (\<forall>w2. files w2 key_path = files w1 key_path \<and> key_path \<notin> dirs w2 \<and> key_path \<notin> denied w2
           \<longrightarrow> get_signing_key lib key_path w2 = (Inr k, emit (ReadFile key_path) w2))
     \<and> (\<forall>n. let wn = ((\<lambda>v. snd (get_signing_key lib key_path v)) ^^ n) w1 in
           get_signing_key lib key_path wn = (Inr k, emit (ReadFile key_path) wn)
           \<and> files wn = files w1
           \<and> new_events w1 wn = replicate n (ReadFile key_path))"
proof (intro conjI allI impI)
  note c = get_signing_key_created [OF fresh first distinct_paths]
  show f1: "files w1 key_path = Some (private_bytes lib k)"
    using c(2) distinct_paths by simp
  show "files w1 PUBLIC_KEY_PATH = Some (public_bytes lib (public_key lib k))"
    using c(2) by simp
  have r: "get_signing_key lib key_path w2 = (Inr k, emit (ReadFile key_path) w2)"
    if "files w2 key_path = files w1 key_path" "key_path \<notin> dirs w2" "key_path \<notin> denied w2" for w2
  proof (rule get_signing_key_reload)
    show "files w2 key_path = Some (private_bytes lib k)" using that(1) f1 by simp
  qed (rule that(2), rule that(3), rule pem)
  show "get_signing_key lib key_path w2 = (Inr k, emit (ReadFile key_path) w2)"
    if "files w2 key_path = files w1 key_path \<and> key_path \<notin> dirs w2 \<and> key_path \<notin> denied w2" for w2
    using that by (intro r) simp_all
  show "let wn = ((\<lambda>v. snd (get_signing_key lib key_path v)) ^^ n) w1 in
           get_signing_key lib key_path wn = (Inr k, emit (ReadFile key_path) wn)
           \<and> files wn = files w1
           \<and> new_events w1 wn = replicate n (ReadFile key_path)" for n
  proof -
    let ?v = "w1\<lparr>trace := trace w1 @ replicate n (ReadFile key_path)\<rparr>"
    have e: "((\<lambda>v. snd (get_signing_key lib key_path v)) ^^ n) w1 = ?v"
      by (rule reload_funpow [OF f1 c(3) c(4) pem])
    have "get_signing_key lib key_path ?v = (Inr k, emit (ReadFile key_path) ?v)"
      using c(3,4) by (intro r) simp_all
    moreover have "files ?v = files w1" by simp
    moreover have "new_events w1 ?v = replicate n (ReadFile key_path)"
      by (simp add: new_events_def)
    ultimately show ?thesis unfolding Let_def e by (intro conjI)
  qed
qed

text \<open>
  A sample world in which the directory of the key exists and nothing else, with the seed 5
  for the next key.
\<close>

definition fresh_world :: world where
  "fresh_world = empty_world\<lparr>dirs := {str ''/var/lib/pcr_attestation_keys''}, seeds := [5]\<rparr>"

lemma ancestors_output_dir:
  "ancestors OUTPUT_BASE_DIR = [str ''/var'', str ''/var/lib'', OUTPUT_BASE_DIR]"
  by (simp add: ancestors_def OUTPUT_BASE_DIR_def str_def slash_def rstrip_slash_def)

lemma fresh_paths:
  "str ''/var'' \<noteq> SIGNING_KEY_PATH" "str ''/var/lib'' \<noteq> SIGNING_KEY_PATH"
  "OUTPUT_BASE_DIR \<noteq> SIGNING_KEY_PATH"
  "SIGNING_KEY_PATH \<noteq> str ''/var/lib/pcr_attestation_keys''"
  "PUBLIC_KEY_PATH \<noteq> str ''/var/lib/pcr_attestation_keys''"
  by (simp_all add: PUBLIC_KEY_PATH_def OUTPUT_BASE_DIR_def SIGNING_KEY_PATH_def
      os_path_join_def str_def slash_def)

lemma fresh_world_fields:
  "dirs fresh_world = {str ''/var/lib/pcr_attestation_keys''}" "files fresh_world = Map.empty"
  "socket_files fresh_world = {}" "denied fresh_world = {}" "seeds fresh_world = [5]"
  "trace fresh_world = []"
  by (simp_all add: fresh_world_def empty_world_def)

lemma fresh_world_fresh: "\<not> os_path_exists SIGNING_KEY_PATH fresh_world"
  using fresh_paths(4) by (simp add: os_path_exists_def fresh_world_fields)

lemma fresh_world_first:
  "\<exists>w1. get_signing_key toy_crypto SIGNING_KEY_PATH fresh_world = (Inr 5, w1)"
proof -
  define v1 where "v1 = emit GeneratedKey (fresh_world\<lparr>seeds := tl (seeds fresh_world)\<rparr>)"
  define v2 where "v2 = emit (WroteFile SIGNING_KEY_PATH)
               (v1\<lparr>files := (files v1)(SIGNING_KEY_PATH \<mapsto> private_bytes toy_crypto 5)\<rparr>)"
  have f1: "dirs v1 = {str ''/var/lib/pcr_attestation_keys''}" "files v1 = Map.empty"
    "socket_files v1 = {}" "denied v1 = {}"
    by (simp_all add: v1_def emit_def fresh_world_fields)
  have f2: "dirs v2 = {str ''/var/lib/pcr_attestation_keys''}"
    "dom (files v2) = {SIGNING_KEY_PATH}"
    "socket_files v2 = {}" "denied v2 = {}"
    by (simp_all add: v2_def emit_def f1)
  have g5: "generate toy_crypto 5 = 5" by (simp add: toy_crypto_def)
  have gk: "generate_key toy_crypto fresh_world = (5, v1)"
    unfolding generate_key_def v1_def fresh_world_fields by (simp add: g5)
  have pe: "parent_error SIGNING_KEY_PATH v1 = None"
    by (simp add: parent_error_def key_path_facts f1)
  have nd: "SIGNING_KEY_PATH \<notin> dirs v1" using fresh_paths(4) by (simp add: f1)
  have s: "save_private_key toy_crypto 5 SIGNING_KEY_PATH v1 = (Inr (), v2)"
    using pe nd key_path_facts(1-3)
    by (simp add: save_private_key_def write_file_def f1(3,4) v2_def)
  have a: "\<forall>a \<in> set (ancestors OUTPUT_BASE_DIR).
             a \<notin> dom (files v2) \<and> a \<notin> socket_files v2 \<and> a \<notin> denied v2"
    unfolding ancestors_output_dir f2 using fresh_paths(1-3) by simp
  have b: "\<not> os_path_exists PUBLIC_KEY_PATH v2" "PUBLIC_KEY_PATH \<notin> denied v2"
    unfolding os_path_exists_def f2 using fresh_paths(5) public_key_path_facts(5) by simp_all
  from save_public_key_creates_directory [OF a b, where lib = toy_crypto
      and pub = "public_key toy_crypto 5"] obtain w' where
    p: "save_public_key toy_crypto (public_key toy_crypto 5) OUTPUT_BASE_DIR v2 = (Inr (), w')"
    by blast
  have ne: "\<not> os_path_exists SIGNING_KEY_PATH fresh_world" by (rule fresh_world_fresh)
  have "get_signing_key toy_crypto SIGNING_KEY_PATH fresh_world = (Inr 5, w')"
    unfolding get_signing_key_def using ne gk s p by simp
  then show ?thesis by (rule exI)
qed

theorem key_persistence_idempotence_witness:
  "\<not> os_path_exists SIGNING_KEY_PATH fresh_world
   \<and> SIGNING_KEY_PATH \<noteq> PUBLIC_KEY_PATH
   \<and> load_pem_private_key toy_crypto (private_bytes toy_crypto 5) = Inr (Ed25519PrivateKey 5)
   \<and> (\<exists>w1. get_signing_key toy_crypto SIGNING_KEY_PATH fresh_world = (Inr 5, w1)
        \<and> files w1 SIGNING_KEY_PATH = Some (private_bytes toy_crypto 5)
        \<and> files w1 PUBLIC_KEY_PATH = Some (public_bytes toy_crypto 105)
        \<and> get_signing_key toy_crypto SIGNING_KEY_PATH w1
            = (Inr 5, emit (ReadFile SIGNING_KEY_PATH) w1)
        \<and> get_signing_key toy_crypto SIGNING_KEY_PATH (emit (ReadFile SIGNING_KEY_PATH) w1)
            = (Inr 5, emit (ReadFile SIGNING_KEY_PATH) (emit (ReadFile SIGNING_KEY_PATH) w1))
        \<and> files (emit (ReadFile SIGNING_KEY_PATH) w1) = files w1)"
proof -
  have ne: "\<not> os_path_exists SIGNING_KEY_PATH fresh_world" by (rule fresh_world_fresh)
  have np: "SIGNING_KEY_PATH \<noteq> PUBLIC_KEY_PATH" using public_key_path_facts(5) by simp
  have pem: "load_pem_private_key toy_crypto (private_bytes toy_crypto 5) = Inr (Ed25519PrivateKey 5)"
    by (simp add: toy_crypto_def unat_byte_of_nat)
  have pk: "public_key toy_crypto 5 = 105" by (simp add: toy_crypto_def)
  from fresh_world_first obtain w1 where
    g: "get_signing_key toy_crypto SIGNING_KEY_PATH fresh_world = (Inr 5, w1)" by (rule exE)
  note T = key_persistence_idempotence [OF ne g np pem]
  note a1 = T [THEN conjunct1]
  note a2 = T [THEN conjunct2, THEN conjunct1, unfolded pk]
  note an = T [THEN conjunct2, THEN conjunct2, THEN conjunct2, THEN spec, unfolded Let_def]
  have z: "((\<lambda>v. snd (get_signing_key toy_crypto SIGNING_KEY_PATH v)) ^^ 0) w1 = w1" by simp
  note b = an [of 0, unfolded z, THEN conjunct1]
  have o: "((\<lambda>v. snd (get_signing_key toy_crypto SIGNING_KEY_PATH v)) ^^ Suc 0) w1
           = emit (ReadFile SIGNING_KEY_PATH) w1"
    by (simp add: b)
  note c1 = an [of "Suc 0", unfolded o, THEN conjunct1]
  note c2 = an [of "Suc 0", unfolded o, THEN conjunct2, THEN conjunct1]
  have "get_signing_key toy_crypto SIGNING_KEY_PATH fresh_world = (Inr 5, w1)
        \<and> files w1 SIGNING_KEY_PATH = Some (private_bytes toy_crypto 5)
        \<and> files w1 PUBLIC_KEY_PATH = Some (public_bytes toy_crypto 105)
        \<and> get_signing_key toy_crypto SIGNING_KEY_PATH w1
            = (Inr 5, emit (ReadFile SIGNING_KEY_PATH) w1)
        \<and> get_signing_key toy_crypto SIGNING_KEY_PATH (emit (ReadFile SIGNING_KEY_PATH) w1)
            = (Inr 5, emit (ReadFile SIGNING_KEY_PATH) (emit (ReadFile SIGNING_KEY_PATH) w1))
        \<and> files (emit (ReadFile SIGNING_KEY_PATH) w1) = files w1"
    by (intro conjI g a1 a2 b c1 c2)
  then have "\<exists>w1. get_signing_key toy_crypto SIGNING_KEY_PATH fresh_world = (Inr 5, w1)
        \<and> files w1 SIGNING_KEY_PATH = Some (private_bytes toy_crypto 5)
        \<and> files w1 PUBLIC_KEY_PATH = Some (public_bytes toy_crypto 105)
        \<and> get_signing_key toy_crypto SIGNING_KEY_PATH w1
            = (Inr 5, emit (ReadFile SIGNING_KEY_PATH) w1)
        \<and> get_signing_key toy_crypto SIGNING_KEY_PATH (emit (ReadFile SIGNING_KEY_PATH) w1)
            = (Inr 5, emit (ReadFile SIGNING_KEY_PATH) (emit (ReadFile SIGNING_KEY_PATH) w1))
        \<and> files (emit (ReadFile SIGNING_KEY_PATH) w1) = files w1"
    by (rule exI)
  with ne np pem show ?thesis by (intro conjI)
qed

end
